theory Spec2Isabelle
  imports Complex_Main
begin

section \<open>Python values\<close>

text \<open>
  A Python \<open>str\<close> is a sequence of Unicode code points. It is modelled as a list of
  natural numbers, one per code point; \<open>lit\<close> turns an Isabelle string literal into
  such a list, so that \<open>lit ''general''\<close> stands for the Python literal \<open>"general"\<close>.
\<close>

type_synonym pystr = "nat list"

definition lit :: "string \<Rightarrow> pystr" where
  "lit cs = map of_char cs"

text \<open>
  A Python \<open>float\<close> is an IEEE 754 double: a finite value (kept as the rational
  number it denotes, with the negative zero apart), an infinity or a NaN.
\<close>

datatype pyfloat = Finite rat | NegZero | PosInf | NegInf | NaN

text \<open>
  The values that \<open>json.loads\<close> produces, which are the only values the agent
  handles: \<open>None\<close>, \<open>bool\<close>, \<open>int\<close>, \<open>float\<close>, \<open>str\<close>, \<open>list\<close> and
  \<open>dict\<close> with string keys. A \<open>dict\<close> is an association list with distinct keys,
  in insertion order.
\<close>

datatype json =
    JNull
  | JBool bool
  | JInt int
  | JFloat pyfloat
  | JStr pystr
  | JArr "json list"
  | JObj "(pystr \<times> json) list"

text \<open>
  The exceptions that occur. \<open>JSONDecodeError\<close> and \<open>UnicodeDecodeError\<close> are
  subclasses of \<open>ValueError\<close>, \<open>PermissionError\<close> is one of \<open>OSError\<close>; here
  \<open>ValueError\<close> and \<open>OSError\<close> stand for an exception of that class which is of none
  of the subclasses listed. \<open>MarkupError\<close> is the exception of the \<open>rich\<close> library.
\<close>

datatype py_error =
    TypeError | AttributeError | KeyError
  | JSONDecodeError | ValueError | RecursionError | UnicodeDecodeError
  | PermissionError | OSError
  | MarkupError

subsection \<open>Truth value and equality\<close>

fun py_truthy :: "json \<Rightarrow> bool" where
  "py_truthy JNull = False"
| "py_truthy (JBool b) = b"
| "py_truthy (JInt i) = (i \<noteq> 0)"
| "py_truthy (JFloat f) = (f \<noteq> Finite 0 \<and> f \<noteq> NegZero)"
| "py_truthy (JStr s) = (s \<noteq> [])"
| "py_truthy (JArr xs) = (xs \<noteq> [])"
| "py_truthy (JObj kvs) = (kvs \<noteq> [])"

fun float_eq :: "pyfloat \<Rightarrow> pyfloat \<Rightarrow> bool" where
  "float_eq NaN _ = False"
| "float_eq _ NaN = False"
| "float_eq (Finite a) (Finite b) = (a = b)"
| "float_eq (Finite a) NegZero = (a = 0)"
| "float_eq NegZero (Finite b) = (b = 0)"
| "float_eq NegZero NegZero = True"
| "float_eq PosInf PosInf = True"
| "float_eq NegInf NegInf = True"
| "float_eq _ _ = False"

text \<open>\<open>bool\<close>, \<open>int\<close> and \<open>float\<close> compare by numeric value (\<open>True == 1\<close>, \<open>1 == 1.0\<close>).\<close>

fun num_of :: "json \<Rightarrow> pyfloat option" where
  "num_of (JBool b) = Some (Finite (if b then 1 else 0))"
| "num_of (JInt i) = Some (Finite (of_int i))"
| "num_of (JFloat f) = Some f"
| "num_of _ = None"

text \<open>
  \<open>x == y\<close> is \<open>py_eq\<close>. Lists and dicts compare their elements, and \<open>in\<close> compares
  with the elements of a list, by \<open>x is y or x == y\<close>, which is \<open>py_same\<close>. Among the
  values of the decoder only a NaN is the same object as another value without being
  equal to it: the decoder has one NaN object, which it returns for every \<open>NaN\<close>.
\<close>

fun is_nan :: "json \<Rightarrow> bool" where
  "is_nan (JFloat f) = (f = NaN)"
| "is_nan _ = False"

fun py_eq :: "json \<Rightarrow> json \<Rightarrow> bool"
  and py_same :: "json \<Rightarrow> json \<Rightarrow> bool"
  and py_eq_list :: "json list \<Rightarrow> json list \<Rightarrow> bool"
  and py_eq_items :: "(pystr \<times> json) list \<Rightarrow> (pystr \<times> json) list \<Rightarrow> bool" where
  "py_eq JNull y = (y = JNull)"
| "py_eq (JStr s) y = (y = JStr s)"
| "py_eq (JArr xs) y = (case y of JArr ys \<Rightarrow> py_eq_list xs ys | _ \<Rightarrow> False)"
| "py_eq (JObj kvs) y =
     (case y of JObj kvs' \<Rightarrow> length kvs = length kvs' \<and> py_eq_items kvs kvs' | _ \<Rightarrow> False)"
| "py_eq (JBool b) y =
     (case num_of y of None \<Rightarrow> False | Some g \<Rightarrow> float_eq (Finite (if b then 1 else 0)) g)"
| "py_eq (JInt i) y =
     (case num_of y of None \<Rightarrow> False | Some g \<Rightarrow> float_eq (Finite (of_int i)) g)"
| "py_eq (JFloat f) y = (case num_of y of None \<Rightarrow> False | Some g \<Rightarrow> float_eq f g)"
| "py_same x y = ((is_nan x \<and> is_nan y) \<or> py_eq x y)"
| "py_eq_list [] ys = (ys = [])"
| "py_eq_list (x # xs) ys =
     (case ys of [] \<Rightarrow> False | y # ys' \<Rightarrow> py_same x y \<and> py_eq_list xs ys')"
| "py_eq_items [] kvs' = True"
| "py_eq_items ((k, v) # kvs) kvs' =
     ((case map_of kvs' k of None \<Rightarrow> False | Some v' \<Rightarrow> py_same v v') \<and> py_eq_items kvs kvs')"

subsection \<open>Strings\<close>

text \<open>
  \<open>str.isspace\<close>: the code points Python treats as whitespace, which are the ones
  \<open>str.strip()\<close> removes from both ends.
\<close>

definition py_isspace :: "nat \<Rightarrow> bool" where
  "py_isspace c =
     ((9 \<le> c \<and> c \<le> 13) \<or> (28 \<le> c \<and> c \<le> 32) \<or> c = 133 \<or> c = 160 \<or> c = 5760
      \<or> (8192 \<le> c \<and> c \<le> 8202) \<or> c = 8232 \<or> c = 8233 \<or> c = 8239 \<or> c = 8287 \<or> c = 12288)"

definition py_strip :: "pystr \<Rightarrow> pystr" where
  "py_strip s = rev (dropWhile py_isspace (rev (dropWhile py_isspace s)))"

text \<open>
  \<open>str.lower\<close>, on the letters A to Z. The case mappings of Unicode outside ASCII
  are not modelled; the agent only compares the result with the words \<open>exit\<close> and
  \<open>quit\<close>, and no code point outside ASCII has a lower case made of their letters.
\<close>

definition py_lower :: "pystr \<Rightarrow> pystr" where
  "py_lower s = map (\<lambda>c. if 65 \<le> c \<and> c \<le> 90 then c + 32 else c) s"

text \<open>\<open>t in s\<close> for strings: \<open>t\<close> occurs in \<open>s\<close> as a contiguous substring.\<close>

fun is_prefix :: "pystr \<Rightarrow> pystr \<Rightarrow> bool" where
  "is_prefix [] s = True"
| "is_prefix (c # t) [] = False"
| "is_prefix (c # t) (d # s) = (c = d \<and> is_prefix t s)"

fun py_substring :: "pystr \<Rightarrow> pystr \<Rightarrow> bool" where
  "py_substring t [] = (t = [])"
| "py_substring t (d # s) = (is_prefix t (d # s) \<or> py_substring t s)"

fun intercalate :: "pystr \<Rightarrow> pystr list \<Rightarrow> pystr" where
  "intercalate sep [] = []"
| "intercalate sep [s] = s"
| "intercalate sep (s # t # ss) = s @ sep @ intercalate sep (t # ss)"

subsection \<open>Operations on containers, with the exceptions Python raises\<close>

fun dict_set :: "pystr \<Rightarrow> json \<Rightarrow> (pystr \<times> json) list \<Rightarrow> (pystr \<times> json) list" where
  "dict_set k v [] = [(k, v)]"
| "dict_set k v (p # ps) = (if fst p = k then (k, v) # ps else p # dict_set k v ps)"

text \<open>\<open>item in container\<close>.\<close>

fun py_contains :: "json \<Rightarrow> json \<Rightarrow> py_error + bool" where
  "py_contains (JObj kvs) item =
     (case item of
        JArr _ \<Rightarrow> Inl TypeError
      | JObj _ \<Rightarrow> Inl TypeError
      | JStr k \<Rightarrow> Inr (map_of kvs k \<noteq> None)
      | _ \<Rightarrow> Inr False)"
| "py_contains (JArr xs) item = Inr (list_ex (\<lambda>x. py_same x item) xs)"
| "py_contains (JStr s) item =
     (case item of JStr t \<Rightarrow> Inr (py_substring t s) | _ \<Rightarrow> Inl TypeError)"
| "py_contains _ item = Inl TypeError"

text \<open>\<open>container[key] = value\<close> and \<open>container[key]\<close>, for a string key.\<close>

fun py_setitem :: "json \<Rightarrow> pystr \<Rightarrow> json \<Rightarrow> py_error + json" where
  "py_setitem (JObj kvs) k v = Inr (JObj (dict_set k v kvs))"
| "py_setitem _ k v = Inl TypeError"

fun py_getitem :: "json \<Rightarrow> pystr \<Rightarrow> py_error + json" where
  "py_getitem (JObj kvs) k = (case map_of kvs k of None \<Rightarrow> Inl KeyError | Some v \<Rightarrow> Inr v)"
| "py_getitem _ k = Inl TypeError"

text \<open>\<open>d.get(key, default)\<close>: only a \<open>dict\<close> has the method.\<close>

fun py_get :: "json \<Rightarrow> pystr \<Rightarrow> json \<Rightarrow> py_error + json" where
  "py_get (JObj kvs) k dflt = (case map_of kvs k of None \<Rightarrow> Inr dflt | Some v \<Rightarrow> Inr v)"
| "py_get _ k dflt = Inl AttributeError"

text \<open>\<open>xs.append(x)\<close>: only a \<open>list\<close> has the method.\<close>

fun py_append :: "json \<Rightarrow> json \<Rightarrow> py_error + json" where
  "py_append (JArr xs) x = Inr (JArr (xs @ [x]))"
| "py_append _ x = Inl AttributeError"

text \<open>The slice \<open>xs[-3:]\<close>: the last three elements, or all of them if there are fewer.\<close>

definition last3 :: "'a list \<Rightarrow> 'a list" where
  "last3 xs = drop (length xs - 3) xs"

fun py_last3 :: "json \<Rightarrow> py_error + json" where
  "py_last3 (JArr xs) = Inr (JArr (last3 xs))"
| "py_last3 (JStr s) = Inr (JStr (last3 s))"
| "py_last3 _ = Inl TypeError"

text \<open>Iteration: a list gives its elements, a dict its keys, a string its characters.\<close>

fun py_iter :: "json \<Rightarrow> py_error + json list" where
  "py_iter (JArr xs) = Inr xs"
| "py_iter (JObj kvs) = Inr (map (\<lambda>p. JStr (fst p)) kvs)"
| "py_iter (JStr s) = Inr (map (\<lambda>c. JStr [c]) s)"
| "py_iter _ = Inl TypeError"

text \<open>\<open>sep.join(iterable)\<close>: every element has to be a string.\<close>

fun strs_of :: "json list \<Rightarrow> py_error + pystr list" where
  "strs_of [] = Inr []"
| "strs_of (x # xs) =
     (case x of
        JStr s \<Rightarrow> (case strs_of xs of Inl e \<Rightarrow> Inl e | Inr ss \<Rightarrow> Inr (s # ss))
      | _ \<Rightarrow> Inl TypeError)"

definition py_join :: "pystr \<Rightarrow> json \<Rightarrow> py_error + pystr" where
  "py_join sep it =
     (case py_iter it of
        Inl e \<Rightarrow> Inl e
      | Inr xs \<Rightarrow> (case strs_of xs of Inl e \<Rightarrow> Inl e | Inr ss \<Rightarrow> Inr (intercalate sep ss)))"

section \<open>The JSON decoder\<close>

fun bitlen :: "nat \<Rightarrow> nat" where
  "bitlen n = (if n = 0 then 0 else Suc (bitlen (n div 2)))"

declare bitlen.simps [simp del]

definition pow2 :: "int \<Rightarrow> rat" where
  "pow2 e = (if 0 \<le> e then 2 ^ nat e else 1 / 2 ^ nat (- e))"

definition pow10 :: "int \<Rightarrow> rat" where
  "pow10 e = (if 0 \<le> e then 10 ^ nat e else 1 / 10 ^ nat (- e))"

definition ilog2 :: "rat \<Rightarrow> int" where
  "ilog2 q = (if 1 \<le> q then int (bitlen (nat \<lfloor>q\<rfloor>)) - 1
              else - int (bitlen (nat (\<lceil>1 / q\<rceil> - 1))))"

definition round_half_even :: "rat \<Rightarrow> int" where
  "round_half_even x =
     (let f = \<lfloor>x\<rfloor>; d = x - of_int f
      in if d < 1 / 2 then f else if 1 / 2 < d then f + 1 else if even f then f else f + 1)"

definition to_double :: "bool \<Rightarrow> rat \<Rightarrow> pyfloat" where
  "to_double neg q =
     (if q = 0 then (if neg then NegZero else Finite 0)
      else
        let e = max (ilog2 q) (- 1022) - 52;
            m = round_half_even (q / pow2 e);
            r = of_int m * pow2 e
        in if pow2 1024 \<le> r then (if neg then NegInf else PosInf)
           else if m = 0 then (if neg then NegZero else Finite 0)
           else Finite (if neg then - r else r))"

definition is_digit :: "nat \<Rightarrow> bool" where
  "is_digit c = (48 \<le> c \<and> c \<le> 57)"

definition digits_val :: "pystr \<Rightarrow> nat" where
  "digits_val ds = foldl (\<lambda>n c. 10 * n + (c - 48)) 0 ds"


subsection \<open>Numbers\<close>

text \<open>
  The number pattern \<open>(-?(?:0|[1-9]\d*))(\.\d+)?([eE][-+]?\d+)?\<close>, matched at the
  head of the text. An optional part that does not match in full is not consumed.
\<close>

definition match_frac :: "pystr \<Rightarrow> pystr option \<times> pystr" where
  "match_frac s =
     (case s of
        c # d # r \<Rightarrow>
          if c = 46 \<and> is_digit d
          then (Some (d # takeWhile is_digit r), dropWhile is_digit r) else (None, s)
      | _ \<Rightarrow> (None, s))"

definition match_exp :: "pystr \<Rightarrow> int option \<times> pystr" where
  "match_exp s =
     (case s of
        c # r \<Rightarrow>
          if c = 101 \<or> c = 69 then
            (case r of
               d # r' \<Rightarrow>
                 if is_digit d
                 then (Some (int (digits_val (takeWhile is_digit r))), dropWhile is_digit r)
                 else if (d = 43 \<or> d = 45) \<and> r' \<noteq> [] \<and> is_digit (hd r')
                 then (Some ((if d = 45 then - 1 else 1) * int (digits_val (takeWhile is_digit r'))),
                       dropWhile is_digit r')
                 else (None, s)
             | [] \<Rightarrow> (None, s))
          else (None, s)
      | [] \<Rightarrow> (None, s))"

text \<open>
  A match without fraction and exponent is an \<open>int\<close>; any other one is a \<open>float\<close>,
  the double nearest to the decimal value. The conversion of the digits to an \<open>int\<close>
  raises \<open>ValueError\<close> when there are more digits than the limit \<open>md\<close> of the
  interpreter (\<open>sys.get_int_max_str_digits()\<close>: 4300 unless it has been changed, never
  between 1 and 639, and 0 for no limit); the sign does not count, and a \<open>float\<close> has
  no such limit. The result is \<open>None\<close> when there is no number at the head of the
  text.
\<close>

definition match_number :: "nat \<Rightarrow> pystr \<Rightarrow> (py_error + json \<times> pystr) option" where
  "match_number md s =
     (let neg = (s \<noteq> [] \<and> hd s = 45);
          s1 = (if neg then tl s else s)
      in case s1 of
           [] \<Rightarrow> None
         | d # r \<Rightarrow>
             if \<not> is_digit d then None
             else
               let ip = (if d = 48 then [d] else d # takeWhile is_digit r);
                   s2 = (if d = 48 then r else dropWhile is_digit r);
                   (fp, s3) = match_frac s2;
                   (ep, s4) = match_exp s3
               in if fp = None \<and> ep = None
                  then (if 0 < md \<and> md < length ip then Some (Inl ValueError)
                        else Some (Inr (JInt ((if neg then - 1 else 1) * int (digits_val ip)), s4)))
                  else
                    let ds = (case fp of None \<Rightarrow> [] | Some f \<Rightarrow> f);
                        ex = (case ep of None \<Rightarrow> 0 | Some e \<Rightarrow> e)
                    in Some (Inr (JFloat (to_double neg
                               (of_nat (digits_val (ip @ ds)) * pow10 (ex - int (length ds)))), s4)))"

subsection \<open>Strings\<close>

definition hexval :: "nat \<Rightarrow> nat option" where
  "hexval c =
     (if 48 \<le> c \<and> c \<le> 57 then Some (c - 48)
      else if 97 \<le> c \<and> c \<le> 102 then Some (c - 87)
      else if 65 \<le> c \<and> c \<le> 70 then Some (c - 55)
      else None)"

text \<open>The four hexadecimal digits of a \<open>\uXXXX\<close> escape, read after the \<open>u\<close>.\<close>

definition decode_uXXXX :: "pystr \<Rightarrow> (nat \<times> pystr) option" where
  "decode_uXXXX s =
     (case s of
        a # b # c # d # r \<Rightarrow>
          (case (hexval a, hexval b, hexval c, hexval d) of
             (Some x, Some y, Some z, Some w) \<Rightarrow> Some (((x * 16 + y) * 16 + z) * 16 + w, r)
           | _ \<Rightarrow> None)
      | _ \<Rightarrow> None)"

definition backslash :: "nat \<Rightarrow> nat option" where
  "backslash e =
     (if e = 34 \<or> e = 92 \<or> e = 47 then Some e
      else if e = 98 then Some 8
      else if e = 102 then Some 12
      else if e = 110 then Some 10
      else if e = 114 then Some 13
      else if e = 116 then Some 9
      else None)"

lemma decode_uXXXX_length: "decode_uXXXX s = Some (u, r) \<Longrightarrow> length r < length s"
  by (auto simp: decode_uXXXX_def split: list.splits option.splits)

text \<open>
  \<open>scanstring\<close>, in strict mode, on the text after the opening quote: the decoded
  string and the text after the closing quote. A high surrogate followed by an escaped
  low surrogate becomes one code point.
\<close>

function scanstring :: "pystr \<Rightarrow> pystr \<Rightarrow> (pystr \<times> pystr) option" where
  "scanstring acc [] = None"
| "scanstring acc (c # cs) =
     (if c = 34 then Some (acc, cs)
      else if c = 92 then
        (case cs of
           [] \<Rightarrow> None
         | e # r \<Rightarrow>
             if e = 117 then
               (case decode_uXXXX r of
                  None \<Rightarrow> None
                | Some (uni, r1) \<Rightarrow>
                    if 55296 \<le> uni \<and> uni \<le> 56319 \<and> take 2 r1 = [92, 117] then
                      (case decode_uXXXX (drop 2 r1) of
                         None \<Rightarrow> None
                       | Some (uni2, r2) \<Rightarrow>
                           if 56320 \<le> uni2 \<and> uni2 \<le> 57343
                           then scanstring
                                  (acc @ [65536 + ((uni - 55296) * 1024 + (uni2 - 56320))]) r2
                           else scanstring (acc @ [uni]) r1)
                    else scanstring (acc @ [uni]) r1)
             else
               (case backslash e of
                  None \<Rightarrow> None
                | Some ch \<Rightarrow> scanstring (acc @ [ch]) r))
      else if c < 32 then None
      else scanstring (acc @ [c]) cs)"
  by pat_completeness auto
termination
proof (relation "measure (\<lambda>(acc, s). length s)", goal_cases)
  case 1
  show ?case by simp
next
  case (2 acc c cs e r x uni r1 y uni2 r2)
  then show ?case
    using decode_uXXXX_length [of r uni r1] decode_uXXXX_length [of "drop 2 r1" uni2 r2]
    by simp
next
  case (3 acc c cs e r x uni r1 y uni2 r2)
  then show ?case using decode_uXXXX_length [of r uni r1] by simp
next
  case (4 acc c cs e r x uni r1)
  then show ?case using decode_uXXXX_length [of r uni r1] by simp
next
  case 5
  then show ?case by simp
next
  case 6
  then show ?case by simp
qed


lemma scanstring_length: "scanstring acc s = Some (t, r) \<Longrightarrow> length r < length s"
proof (induction acc s rule: scanstring.induct)
  case (1 acc)
  then show ?case by simp
next
  case (2 acc c cs)
  show ?case
  proof (cases "c = 34 \<or> c \<noteq> 92")
    case True
    then show ?thesis using 2 by (fastforce split: if_splits)
  next
    case False
    then obtain e r0 where cs: "cs = e # r0" using 2(6) by (cases cs) auto
    show ?thesis
    proof (cases "e = 117")
      case False
      then show ?thesis using 2 cs \<open>\<not> (c = 34 \<or> c \<noteq> 92)\<close>
        by (fastforce split: option.splits)
    next
      case True
      then obtain uni r1 where d1: "decode_uXXXX r0 = Some (uni, r1)"
        using 2(6) cs \<open>\<not> (c = 34 \<or> c \<noteq> 92)\<close> by (auto split: option.splits)
      have l1: "length r1 < length r0" using d1 by (rule decode_uXXXX_length)
      show ?thesis
      proof (cases "55296 \<le> uni \<and> uni \<le> 56319 \<and> take 2 r1 = [92, 117]")
        case False
        then have "scanstring (acc @ [uni]) r1 = Some (t, r)"
          using 2(6) cs True d1 \<open>\<not> (c = 34 \<or> c \<noteq> 92)\<close> by auto
        then have "length r < length r1"
          using 2(3) [OF _ _ cs True d1 refl] False \<open>\<not> (c = 34 \<or> c \<noteq> 92)\<close> by auto
        then show ?thesis using l1 cs by simp
      next
        case hi: True
        then obtain uni2 r2 where d2: "decode_uXXXX (drop 2 r1) = Some (uni2, r2)"
          using 2(6) cs True d1 \<open>\<not> (c = 34 \<or> c \<noteq> 92)\<close> by (auto split: option.splits)
        have l2: "length r2 < length r1" using decode_uXXXX_length [OF d2] by simp
        show ?thesis
        proof (cases "56320 \<le> uni2 \<and> uni2 \<le> 57343")
          case True
          then have "scanstring (acc @ [65536 + ((uni - 55296) * 1024 + (uni2 - 56320))]) r2
                       = Some (t, r)"
            using 2(6) cs \<open>e = 117\<close> d1 d2 hi \<open>\<not> (c = 34 \<or> c \<noteq> 92)\<close> by auto
          then have "length r < length r2"
            using 2(1) [OF _ _ cs \<open>e = 117\<close> d1 refl hi d2 refl True]
                  \<open>\<not> (c = 34 \<or> c \<noteq> 92)\<close> by auto
          then show ?thesis using l1 l2 cs by simp
        next
          case False
          then have "scanstring (acc @ [uni]) r1 = Some (t, r)"
            using 2(6) cs \<open>e = 117\<close> d1 d2 hi \<open>\<not> (c = 34 \<or> c \<noteq> 92)\<close> by auto
          then have "length r < length r1"
            using 2(2) [OF _ _ cs \<open>e = 117\<close> d1 refl hi d2 refl False]
                  \<open>\<not> (c = 34 \<or> c \<noteq> 92)\<close> by auto
          then show ?thesis using l1 cs by simp
        qed
      qed
    qed
  qed
qed


declare scanstring.simps [simp del]

subsection \<open>Values\<close>

definition is_ws :: "nat \<Rightarrow> bool" where
  "is_ws c = (c = 32 \<or> c = 9 \<or> c = 10 \<or> c = 13)"

definition skip_ws :: "pystr \<Rightarrow> pystr" where
  "skip_ws s = dropWhile is_ws s"

lemma skip_ws_length: "length (skip_ws s) \<le> length s"
  by (simp add: skip_ws_def length_dropWhile_le)

lemma skip_ws_Cons_length: "skip_ws s = c # r \<Longrightarrow> length r < length s"
  using skip_ws_length [of s] by simp

text \<open>
  \<open>scan_once\<close> reads one value at the head of the text and returns it with the rest of
  the text. \<open>scan_array\<close> reads the elements of an array from the first element on,
  \<open>scan_object\<close> the members of an object from the text after the opening quote of
  the first key; both carry what they have read so far. A key that occurs twice keeps
  its first position and its last value, as \<open>dict(pairs)\<close> does.

  The scanner enters one level of recursion of the interpreter at each opening bracket
  or brace, before it reads what follows: \<open>d\<close> is the number of levels that are left
  below the recursion limit at the call, and an array or object met when none is left
  raises \<open>RecursionError\<close>. A text that is not JSON gives \<open>JSONDecodeError\<close>.

  The comparisons of lengths are there for the termination proof only: a value read is
  never empty (\<open>scan_once_length\<close>).
\<close>

function scan_once :: "nat \<Rightarrow> nat \<Rightarrow> pystr \<Rightarrow> py_error + json \<times> pystr"
  and scan_array :: "nat \<Rightarrow> nat \<Rightarrow> json list \<Rightarrow> pystr \<Rightarrow> py_error + json \<times> pystr"
  and scan_object :: "nat \<Rightarrow> nat \<Rightarrow> (pystr \<times> json) list \<Rightarrow> pystr \<Rightarrow> py_error + json \<times> pystr" where
  "scan_once md d s =
     (case s of
        [] \<Rightarrow> Inl JSONDecodeError
      | c # cs \<Rightarrow>
          if c = 34 then
            (case scanstring [] cs of
               None \<Rightarrow> Inl JSONDecodeError
             | Some (t, r) \<Rightarrow> Inr (JStr t, r))
          else if c = 123 then
            (if d = 0 then Inl RecursionError
             else
               (case skip_ws cs of
                  [] \<Rightarrow> Inl JSONDecodeError
                | c' # r \<Rightarrow>
                    if c' = 125 then Inr (JObj [], r)
                    else if c' = 34 then scan_object md (d - 1) [] r
                    else Inl JSONDecodeError))
          else if c = 91 then
            (if d = 0 then Inl RecursionError
             else
               (case skip_ws cs of
                  [] \<Rightarrow> Inl JSONDecodeError
                | c' # r \<Rightarrow>
                    if c' = 93 then Inr (JArr [], r) else scan_array md (d - 1) [] (c' # r)))
          else if is_prefix (lit ''null'') s then Inr (JNull, drop 4 s)
          else if is_prefix (lit ''true'') s then Inr (JBool True, drop 4 s)
          else if is_prefix (lit ''false'') s then Inr (JBool False, drop 5 s)
          else
            (case match_number md s of
               Some res \<Rightarrow> res
             | None \<Rightarrow>
                 if is_prefix (lit ''NaN'') s then Inr (JFloat NaN, drop 3 s)
                 else if is_prefix (lit ''Infinity'') s then Inr (JFloat PosInf, drop 8 s)
                 else if is_prefix (lit ''-Infinity'') s then Inr (JFloat NegInf, drop 9 s)
                 else Inl JSONDecodeError))"
| "scan_array md d acc s =
     (case scan_once md d s of
        Inl e \<Rightarrow> Inl e
      | Inr (v, r) \<Rightarrow>
          if length r < length s then
            (case skip_ws r of
               [] \<Rightarrow> Inl JSONDecodeError
             | c # r' \<Rightarrow>
                 if c = 93 then Inr (JArr (acc @ [v]), r')
                 else if c = 44 then scan_array md d (acc @ [v]) (skip_ws r')
                 else Inl JSONDecodeError)
          else Inl JSONDecodeError)"
| "scan_object md d acc s =
     (case scanstring [] s of
        None \<Rightarrow> Inl JSONDecodeError
      | Some (k, r) \<Rightarrow>
          (case skip_ws r of
             [] \<Rightarrow> Inl JSONDecodeError
           | c # r1 \<Rightarrow>
               if c = 58 then
                 (case scan_once md d (skip_ws r1) of
                    Inl e \<Rightarrow> Inl e
                  | Inr (v, r2) \<Rightarrow>
                      if length r2 < length s then
                        (case skip_ws r2 of
                           [] \<Rightarrow> Inl JSONDecodeError
                         | c2 # r3 \<Rightarrow>
                             if c2 = 125 then Inr (JObj (dict_set k v acc), r3)
                             else if c2 = 44 then
                               (case skip_ws r3 of
                                  [] \<Rightarrow> Inl JSONDecodeError
                                | c3 # r4 \<Rightarrow>
                                    if c3 = 34 then scan_object md d (dict_set k v acc) r4
                                    else Inl JSONDecodeError)
                             else Inl JSONDecodeError)
                      else Inl JSONDecodeError)
               else Inl JSONDecodeError))"
  by pat_completeness auto
termination
proof (relation "measure (\<lambda>x. case x of
                      Inl (md, d, s) \<Rightarrow> 2 * length s
                    | Inr (Inl (md, d, acc, s)) \<Rightarrow> 2 * length s + 1
                    | Inr (Inr (md, d, acc, s)) \<Rightarrow> 2 * length s + 1)", goal_cases)
  case 1
  show ?case by simp
next
  case (2 md d s c cs c' r)
  then show ?case using skip_ws_Cons_length [of cs c' r] by simp
next
  case (3 md d s c cs c' r)
  then show ?case using skip_ws_length [of cs] by simp
next
  case 4
  then show ?case by simp
next
  case (5 md d acc s x v r c r')
  then show ?case
    using skip_ws_Cons_length [of r c r'] skip_ws_length [of r'] by simp
next
  case (6 md d acc s x k r c r1)
  then show ?case
    using scanstring_length [of "[]" s k r] skip_ws_Cons_length [of r c r1] skip_ws_length [of r1]
    by simp
next
  case (7 md d acc s x k r c r1 y v r2 c2 r3 c3 r4)
  then show ?case
    using skip_ws_Cons_length [of r2 c2 r3] skip_ws_Cons_length [of r3 c3 r4] by simp
qed

declare scan_once.simps [simp del] scan_array.simps [simp del] scan_object.simps [simp del]

text \<open>
  \<open>json.loads\<close> on a \<open>str\<close>: one value, with whitespace allowed before and after it and
  nothing else; a text that starts with a byte order mark is refused. The decoder is the
  default one (the C scanner: ASCII digits and strict hexadecimal escapes). \<open>md\<close> and
  \<open>d\<close> are the two limits of the interpreter that the decoder meets: the number of
  digits of an \<open>int\<close>, and the levels of recursion left at the call. Beyond them the
  decoder raises \<open>ValueError\<close> and \<open>RecursionError\<close>, which are not
  \<open>JSONDecodeError\<close>.
\<close>

definition json_loads :: "nat \<Rightarrow> nat \<Rightarrow> pystr \<Rightarrow> py_error + json" where
  "json_loads md d s =
     (if s \<noteq> [] \<and> hd s = 65279 then Inl JSONDecodeError
      else
        (case scan_once md d (skip_ws s) of
           Inl e \<Rightarrow> Inl e
         | Inr (v, r) \<Rightarrow> if skip_ws r = [] then Inr v else Inl JSONDecodeError))"

section \<open>The agent\<close>

subsection \<open>State and environment\<close>

text \<open>
  The three prompts are fixed templates with values interpolated. A prompt is
  represented by the interpolated values, in the order of the template: the user input
  for the intent prompt; topic, tone, constraints, the joined niches, the topics of the
  history and the choice of the tone directive (\<open>True\<close> for the casual one) for the
  planning prompt; the plan and the tone for the rendering prompt.
\<close>

datatype prompt =
    IntentPrompt pystr
  | PlanPrompt json json json pystr "json list" bool
  | RenderPrompt pystr json

text \<open>
  The state file \<open>agent_state.json\<close> as \<open>load_state\<close> finds it: absent; present but
  not to be opened for reading; holding bytes that are not text in the encoding of the
  platform; holding some text; or holding what \<open>json.dump\<close> wrote for a value.
\<close>

datatype state_file = Absent | Unreadable | Undecodable | Text pystr | Dumped json

text \<open>
  The decoder reads the dump of a value back as that value, unless the dump passes a
  limit of the interpreter: \<open>dump_error\<close> is the exception that the decoder raises
  first, in the order of the text, for an array or object nested deeper than the levels
  of recursion left, or an \<open>int\<close> of more digits than the limit.
\<close>

fun ndigits :: "nat \<Rightarrow> nat" where
  "ndigits n = (if n < 10 then 1 else Suc (ndigits (n div 10)))"

declare ndigits.simps [simp del]

fun dump_error :: "nat \<Rightarrow> nat \<Rightarrow> json \<Rightarrow> py_error option"
  and dump_errors :: "nat \<Rightarrow> nat \<Rightarrow> json list \<Rightarrow> py_error option"
  and dump_errors_items :: "nat \<Rightarrow> nat \<Rightarrow> (pystr \<times> json) list \<Rightarrow> py_error option" where
  "dump_error md d (JInt i) = (if 0 < md \<and> md < ndigits (nat \<bar>i\<bar>) then Some ValueError else None)"
| "dump_error md d (JArr xs) = (if d = 0 then Some RecursionError else dump_errors md (d - 1) xs)"
| "dump_error md d (JObj kvs) =
     (if d = 0 then Some RecursionError else dump_errors_items md (d - 1) kvs)"
| "dump_error md d JNull = None"
| "dump_error md d (JBool b) = None"
| "dump_error md d (JFloat f) = None"
| "dump_error md d (JStr s) = None"
| "dump_errors md d [] = None"
| "dump_errors md d (x # xs) =
     (case dump_error md d x of None \<Rightarrow> dump_errors md d xs | Some e \<Rightarrow> Some e)"
| "dump_errors_items md d [] = None"
| "dump_errors_items md d (p # ps) =
     (case dump_error md d (snd p) of None \<Rightarrow> dump_errors_items md d ps | Some e \<Rightarrow> Some e)"

text \<open>
  What an attempt of \<open>save_state\<close> to write the file comes to: the file holds the dump
  of the state; or \<open>open\<close> raises (a directory or a file that is not writable) and the
  file is as it was; or the file has been opened, which empties it, and the writing
  raises (a full disk, a value that \<open>json.dump\<close> cannot write within the limits of the
  interpreter), leaving some text behind.
\<close>

datatype write_outcome = Written | Refused py_error | Broken py_error pystr

text \<open>What the agent prints.\<close>

datatype message = ParseError | InvalidRequest | Reply pystr | Failure py_error

text \<open>
  The environment: \<open>gen k p\<close> is the string that the call number \<open>k\<close> of
  \<open>generate_content\<close> returns for the prompt \<open>p\<close> (the text of the model, or the
  string \<open>API Error: ...\<close> built when the request fails); \<open>now k\<close> is the timestamp that
  the reading number \<open>k\<close> of the clock gives; \<open>store k\<close> is what the attempt number
  \<open>k\<close> to write the state file comes to. \<open>max_digits\<close> is the limit of the interpreter
  on the digits of an \<open>int\<close>, \<open>file_depth\<close> and \<open>reply_depth\<close> are the levels of
  recursion left where \<open>load_state\<close> and \<open>input_understanding\<close> call the decoder.
  \<open>rich t\<close> is what the \<open>print\<close> of the \<open>rich\<close> library, which reads square brackets
  in a text as markup, does with the text \<open>t\<close>: \<open>None\<close> when it prints it, and the
  message of the \<open>MarkupError\<close> when it raises one (as for a closing tag that closes
  nothing).
\<close>

record env =
  gen :: "nat \<Rightarrow> prompt \<Rightarrow> pystr"
  now :: "nat \<Rightarrow> pystr"
  store :: "nat \<Rightarrow> write_outcome"
  max_digits :: nat
  file_depth :: nat
  reply_depth :: nat
  rich :: "pystr \<Rightarrow> pystr option"

text \<open>
  The agent and its surroundings: \<open>self.state\<close>, the state file, the prompts sent so
  far, the number of readings of the clock, the number of attempts to write the state
  file, and the lines printed.
\<close>

record world =
  state :: json
  disk :: state_file
  sent :: "prompt list"
  ticks :: nat
  writes :: nat
  console :: "message list"

definition generate_content :: "env \<Rightarrow> prompt \<Rightarrow> world \<Rightarrow> pystr \<times> world" where
  "generate_content ev p w = (gen ev (length (sent w)) p, w\<lparr>sent := sent w @ [p]\<rparr>)"

text \<open>
  \<open>load_state\<close> returns \<open>None\<close> when the file is missing or the decoder raises
  \<open>JSONDecodeError\<close>; any other exception of \<open>open\<close> or \<open>json.load\<close> is raised to the
  caller.
\<close>

definition load_state :: "env \<Rightarrow> world \<Rightarrow> py_error + json" where
  "load_state ev w =
     (case disk w of
        Absent \<Rightarrow> Inr JNull
      | Unreadable \<Rightarrow> Inl PermissionError
      | Undecodable \<Rightarrow> Inl UnicodeDecodeError
      | Text t \<Rightarrow>
          (case json_loads (max_digits ev) (file_depth ev) t of
             Inl e \<Rightarrow> if e = JSONDecodeError then Inr JNull else Inl e
           | Inr v \<Rightarrow> Inr v)
      | Dumped v \<Rightarrow>
          (case dump_error (max_digits ev) (file_depth ev) v of
             None \<Rightarrow> Inr v
           | Some e \<Rightarrow> Inl e))"

text \<open>\<open>save_state\<close> has no handler: what \<open>open\<close> or \<open>json.dump\<close> raises, it raises.\<close>

definition save_state :: "env \<Rightarrow> world \<Rightarrow> (py_error + unit) \<times> world" where
  "save_state ev w =
     (case store ev (writes w) of
        Written \<Rightarrow> (Inr (), w\<lparr>disk := Dumped (state w), writes := Suc (writes w)\<rparr>)
      | Refused e \<Rightarrow> (Inl e, w\<lparr>writes := Suc (writes w)\<rparr>)
      | Broken e t \<Rightarrow> (Inl e, w\<lparr>disk := Text t, writes := Suc (writes w)\<rparr>))"

definition default_state :: json where
  "default_state =
     JObj [(lit ''history'', JArr []),
           (lit ''niches'', JArr []),
           (lit ''user_preferences'',
              JObj [(lit ''tone'', JStr (lit ''friendly'')),
                    (lit ''complexity'', JStr (lit ''medium''))])]"

text \<open>
  The constructor \<open>__init__\<close>, started on a state file: the agent it returns, or the
  exception it raises.
\<close>

definition agent_init :: "env \<Rightarrow> state_file \<Rightarrow> py_error + world" where
  "agent_init ev d =
     (let w = \<lparr>state = JNull, disk = d, sent = [], ticks = 0, writes = 0, console = []\<rparr>
      in case load_state ev w of
           Inl e \<Rightarrow> Inl e
         | Inr st \<Rightarrow>
             if \<not> py_truthy st then
               (case save_state ev (w\<lparr>state := default_state\<rparr>) of
                  (Inl e, w') \<Rightarrow> Inl e
                | (Inr u, w') \<Rightarrow> Inr w')
             else Inr (w\<lparr>state := st\<rparr>))"

subsection \<open>The stages\<close>

definition fallback_intent :: json where
  "fallback_intent =
     JObj [(lit ''topic'', JStr (lit ''general'')),
           (lit ''tone'', JStr (lit ''neutral'')),
           (lit ''constraints'', JStr [])]"

text \<open>
  \<open>input_understanding\<close> catches every exception of the decoder. The line it prints
  then holds the message of the exception, and no message of the decoder holds a
  bracket, so that \<open>rich\<close> prints it.
\<close>

definition input_understanding :: "env \<Rightarrow> pystr \<Rightarrow> world \<Rightarrow> json \<times> world" where
  "input_understanding ev user_input w =
     (let (response, w1) = generate_content ev (IntentPrompt user_input) w
      in case json_loads (max_digits ev) (reply_depth ev) (py_strip response) of
           Inl e \<Rightarrow> (fallback_intent, w1\<lparr>console := console w1 @ [ParseError]\<rparr>)
         | Inr v \<Rightarrow> (v, w1))"

text \<open>\<open>if key not in self.state: self.state[key] = []\<close>\<close>

definition ensure_key :: "pystr \<Rightarrow> json \<Rightarrow> py_error + json" where
  "ensure_key k st =
     (case py_contains st (JStr k) of
        Inl e \<Rightarrow> Inl e
      | Inr present \<Rightarrow> if present then Inr st else py_setitem st k (JArr []))"

text \<open>The update of the niches (lines 80 to 82).\<close>

definition add_niche :: "json \<Rightarrow> json \<Rightarrow> py_error + json" where
  "add_niche analysis st =
     (case py_get analysis (lit ''topic'') (JStr []) of
        Inl e \<Rightarrow> Inl e
      | Inr topic \<Rightarrow>
          if \<not> py_truthy topic then Inr st
          else
            (case py_getitem st (lit ''niches'') of
               Inl e \<Rightarrow> Inl e
             | Inr ns \<Rightarrow>
                 (case py_contains ns topic of
                    Inl e \<Rightarrow> Inl e
                  | Inr present \<Rightarrow>
                      if present then Inr st
                      else
                        (case py_append ns topic of
                           Inl e \<Rightarrow> Inl e
                         | Inr ns' \<Rightarrow> py_setitem st (lit ''niches'') ns'))))"

text \<open>The update of the history (lines 85 to 91): append the turn, keep the last three.\<close>

definition add_turn :: "pystr \<Rightarrow> json \<Rightarrow> json \<Rightarrow> py_error + json" where
  "add_turn timestamp analysis st =
     (case py_getitem st (lit ''history'') of
        Inl e \<Rightarrow> Inl e
      | Inr h \<Rightarrow>
          (case py_get analysis (lit ''user_input'') (JStr []) of
             Inl e \<Rightarrow> Inl e
           | Inr ui \<Rightarrow>
               (case py_append h (JObj [(lit ''timestamp'', JStr timestamp),
                                        (lit ''analysis'', analysis),
                                        (lit ''user_input'', ui)]) of
                  Inl e \<Rightarrow> Inl e
                | Inr h' \<Rightarrow>
                    (case py_last3 h' of
                       Inl e \<Rightarrow> Inl e
                     | Inr h'' \<Rightarrow> py_setitem st (lit ''history'') h''))))"

text \<open>
  \<open>update_state\<close>. An exception leaves \<open>self.state\<close> as the statements before it
  made it; the file is touched by \<open>save_state\<close> only, the last statement.
\<close>

definition update_state :: "env \<Rightarrow> json \<Rightarrow> world \<Rightarrow> (py_error + unit) \<times> world" where
  "update_state ev analysis w =
     (case ensure_key (lit ''niches'') (state w) of
        Inl e \<Rightarrow> (Inl e, w)
      | Inr st1 \<Rightarrow>
          (case ensure_key (lit ''history'') st1 of
             Inl e \<Rightarrow> (Inl e, w\<lparr>state := st1\<rparr>)
           | Inr st2 \<Rightarrow>
               (case add_niche analysis st2 of
                  Inl e \<Rightarrow> (Inl e, w\<lparr>state := st2\<rparr>)
                | Inr st3 \<Rightarrow>
                    (case add_turn (now ev (ticks w)) analysis st3 of
                       Inl e \<Rightarrow> (Inl e, w\<lparr>state := st3\<rparr>)
                     | Inr st4 \<Rightarrow> save_state ev (w\<lparr>state := st4, ticks := Suc (ticks w)\<rparr>)))))"

text \<open>\<open>[h['analysis'].get('topic', '') for h in history]\<close>\<close>

fun history_topics :: "json list \<Rightarrow> py_error + json list" where
  "history_topics [] = Inr []"
| "history_topics (h # hs) =
     (case py_getitem h (lit ''analysis'') of
        Inl e \<Rightarrow> Inl e
      | Inr a \<Rightarrow>
          (case py_get a (lit ''topic'') (JStr []) of
             Inl e \<Rightarrow> Inl e
           | Inr t \<Rightarrow> (case history_topics hs of Inl e \<Rightarrow> Inl e | Inr ts \<Rightarrow> Inr (t # ts))))"

text \<open>The planning prompt that \<open>plan_task\<close> builds from the intent and the state.\<close>

definition plan_prompt :: "json \<Rightarrow> json \<Rightarrow> py_error + prompt" where
  "plan_prompt analysis st =
     (case py_get st (lit ''niches'') (JArr []) of Inl e \<Rightarrow> Inl e | Inr niches \<Rightarrow>
      case py_get st (lit ''history'') (JArr []) of Inl e \<Rightarrow> Inl e | Inr history \<Rightarrow>
      case py_iter history of Inl e \<Rightarrow> Inl e | Inr hs \<Rightarrow>
      case history_topics hs of Inl e \<Rightarrow> Inl e | Inr topics \<Rightarrow>
      case py_get analysis (lit ''topic'') (JStr (lit ''general'')) of Inl e \<Rightarrow> Inl e | Inr topic \<Rightarrow>
      case py_get analysis (lit ''tone'') (JStr (lit ''neutral'')) of Inl e \<Rightarrow> Inl e | Inr tone \<Rightarrow>
      case py_get analysis (lit ''constraints'') (JStr (lit ''none'')) of Inl e \<Rightarrow> Inl e | Inr cons \<Rightarrow>
      case py_join (lit '', '') niches of Inl e \<Rightarrow> Inl e | Inr joined \<Rightarrow>
      case py_get analysis (lit ''tone'') JNull of Inl e \<Rightarrow> Inl e | Inr tone' \<Rightarrow>
        Inr (PlanPrompt topic tone cons joined topics (py_eq tone' (JStr (lit ''casual'')))))"

definition plan_task :: "env \<Rightarrow> json \<Rightarrow> world \<Rightarrow> (py_error + pystr) \<times> world" where
  "plan_task ev analysis w =
     (case plan_prompt analysis (state w) of
        Inl e \<Rightarrow> (Inl e, w)
      | Inr p \<Rightarrow> (let (r, w') = generate_content ev p w in (Inr r, w')))"

definition generate_output :: "env \<Rightarrow> pystr \<Rightarrow> world \<Rightarrow> (py_error + pystr) \<times> world" where
  "generate_output ev plan w =
     (case py_get (state w) (lit ''user_preferences'') (JObj []) of
        Inl e \<Rightarrow> (Inl e, w)
      | Inr prefs \<Rightarrow>
          (case py_get prefs (lit ''tone'') (JStr (lit ''friendly'')) of
             Inl e \<Rightarrow> (Inl e, w)
           | Inr tone \<Rightarrow>
               (let (r, w') = generate_content ev (RenderPrompt plan tone) w in (Inr r, w'))))"

subsection \<open>The pipeline\<close>

definition run :: "env \<Rightarrow> pystr \<Rightarrow> world \<Rightarrow> (py_error + pystr) \<times> world" where
  "run ev user_input w =
     (let (analysis0, w1) = input_understanding ev user_input w
      in case py_setitem analysis0 (lit ''user_input'') (JStr user_input) of
           Inl e \<Rightarrow> (Inl e, w1)
         | Inr analysis \<Rightarrow>
             (case update_state ev analysis w1 of
                (Inl e, w2) \<Rightarrow> (Inl e, w2)
              | (Inr u, w2) \<Rightarrow>
                  (case plan_task ev analysis w2 of
                     (Inl e, w3) \<Rightarrow> (Inl e, w3)
                   | (Inr plan, w3) \<Rightarrow> generate_output ev plan w3)))"

text \<open>
  One turn of the loop of the command line, on the line read. The result is \<open>Inr True\<close>
  when the loop goes on, \<open>Inr False\<close> when it ends by \<open>break\<close>, and \<open>Inl e\<close> when the
  exception \<open>e\<close> leaves the loop and ends the program; with it comes the world after
  the turn.

  The reply is printed by \<open>rich\<close> after a header in bold. When \<open>rich\<close> raises
  \<open>MarkupError\<close> on it, the handler of the loop prints \<open>Error:\<close> and the message of
  the exception, again by \<open>rich\<close>; an exception raised there is raised inside the
  handler and leaves the loop. The request to enter a valid input is a fixed text
  without brackets, and the messages of the exceptions that \<open>run\<close> raises hold no
  markup, so that \<open>rich\<close> prints them.
\<close>

definition reply_text :: "pystr \<Rightarrow> pystr" where
  "reply_text response =
     10 # lit ''[bold cyan]BlogSpark:[/bold cyan]'' @ [10] @ response @ [10]"

definition cli_step :: "env \<Rightarrow> pystr \<Rightarrow> world \<Rightarrow> (py_error + bool) \<times> world" where
  "cli_step ev user_input w =
     (if py_lower user_input = lit ''exit'' \<or> py_lower user_input = lit ''quit'' then (Inr False, w)
      else if py_strip user_input = [] then
        (Inr True, w\<lparr>console := console w @ [InvalidRequest]\<rparr>)
      else
        (case run ev user_input w of
           (Inl e, w') \<Rightarrow> (Inr True, w'\<lparr>console := console w' @ [Failure e]\<rparr>)
         | (Inr response, w') \<Rightarrow>
             (case rich ev (reply_text response) of
                None \<Rightarrow> (Inr True, w'\<lparr>console := console w' @ [Reply response]\<rparr>)
              | Some m \<Rightarrow>
                  (case rich ev (lit ''Error: '' @ m) of
                     None \<Rightarrow> (Inr True, w'\<lparr>console := console w' @ [Failure MarkupError]\<rparr>)
                   | Some m' \<Rightarrow> (Inl MarkupError, w')))))"

section \<open>Observations on the state\<close>

text \<open>The value under a key of a dict, and the two lists of the state document.\<close>

definition lookup :: "json \<Rightarrow> pystr \<Rightarrow> json option" where
  "lookup st k = (case st of JObj kvs \<Rightarrow> map_of kvs k | _ \<Rightarrow> None)"

definition niches_of :: "json \<Rightarrow> json list" where
  "niches_of st = (case lookup st (lit ''niches'') of Some (JArr ns) \<Rightarrow> ns | _ \<Rightarrow> [])"

definition history_of :: "json \<Rightarrow> json list" where
  "history_of st = (case lookup st (lit ''history'') of Some (JArr hs) \<Rightarrow> hs | _ \<Rightarrow> [])"

fun is_str :: "json \<Rightarrow> bool" where
  "is_str (JStr s) = True"
| "is_str _ = False"

fun is_obj :: "json \<Rightarrow> bool" where
  "is_obj (JObj kvs) = True"
| "is_obj _ = False"

text \<open>
  A state document as the data model describes it: a dict whose \<open>niches\<close>, if present,
  is a list of strings, whose \<open>history\<close>, if present, is a list of turns that each hold
  a dict as analysis, and whose \<open>user_preferences\<close>, if present, is a dict.
\<close>

definition wf_turn :: "json \<Rightarrow> bool" where
  "wf_turn h = (case lookup h (lit ''analysis'') of Some a \<Rightarrow> is_obj a | None \<Rightarrow> False)"

definition wf_state :: "json \<Rightarrow> bool" where
  "wf_state st =
     (is_obj st
      \<and> (case lookup st (lit ''niches'') of
            None \<Rightarrow> True | Some (JArr ns) \<Rightarrow> list_all is_str ns | Some _ \<Rightarrow> False)
      \<and> (case lookup st (lit ''history'') of
            None \<Rightarrow> True | Some (JArr hs) \<Rightarrow> list_all wf_turn hs | Some _ \<Rightarrow> False)
      \<and> (case lookup st (lit ''user_preferences'') of
            None \<Rightarrow> True | Some p \<Rightarrow> is_obj p))"

text \<open>The requests of a session, one after the other; a request that fails does not stop it.\<close>

fun run_all :: "env \<Rightarrow> pystr list \<Rightarrow> world \<Rightarrow> (py_error + pystr) list \<times> world" where
  "run_all ev [] w = ([], w)"
| "run_all ev (u # us) w =
     (let (r, w1) = run ev u w; (rs, w2) = run_all ev us w1 in (r # rs, w2))"

text \<open>A sequence of intents folded into the state by \<open>update_state\<close>.\<close>

fun update_all :: "env \<Rightarrow> json list \<Rightarrow> world \<Rightarrow> world" where
  "update_all ev [] w = w"
| "update_all ev (a # as) w = update_all ev as (snd (update_state ev a w))"

text \<open>
  An intent as the data model describes it, with a string as topic if it has one, and
  its topic (empty if it has none).
\<close>

definition is_intent :: "json \<Rightarrow> bool" where
  "is_intent a = (is_obj a \<and> (case lookup a (lit ''topic'') of None \<Rightarrow> True | Some t \<Rightarrow> is_str t))"

definition topic_of :: "json \<Rightarrow> json" where
  "topic_of a = (case lookup a (lit ''topic'') of None \<Rightarrow> JStr [] | Some t \<Rightarrow> t)"

text \<open>The elements of a list in the order of their first occurrence, each once.\<close>

fun first_occurrences :: "'a list \<Rightarrow> 'a list \<Rightarrow> 'a list" where
  "first_occurrences seen [] = seen"
| "first_occurrences seen (x # xs) =
     first_occurrences (if x \<in> set seen then seen else seen @ [x]) xs"

text \<open>
  The turn that \<open>update_state\<close> appends for an analysis, and the niches after the
  topic of an analysis has been merged into them.
\<close>

definition turn_of :: "pystr \<Rightarrow> json \<Rightarrow> json" where
  "turn_of ts a =
     JObj [(lit ''timestamp'', JStr ts),
           (lit ''analysis'', a),
           (lit ''user_input'',
              case lookup a (lit ''user_input'') of None \<Rightarrow> JStr [] | Some v \<Rightarrow> v)]"

definition merge_niche :: "json list \<Rightarrow> json \<Rightarrow> json list" where
  "merge_niche ns t =
     (if py_truthy t \<and> \<not> list_ex (\<lambda>x. py_same x t) ns then ns @ [t] else ns)"

text \<open>A state on which \<open>update_state\<close> does not raise: a dict whose two lists are lists.\<close>

definition ready :: "json \<Rightarrow> bool" where
  "ready st =
     (is_obj st
      \<and> (case lookup st (lit ''niches'') of
            None \<Rightarrow> True | Some (JArr ns) \<Rightarrow> True | Some _ \<Rightarrow> False)
      \<and> (case lookup st (lit ''history'') of
            None \<Rightarrow> True | Some (JArr hs) \<Rightarrow> True | Some _ \<Rightarrow> False))"

text \<open>
  A state as the requests of a session leave it, whatever the replies of the model: a
  well-formed state but for the niches, which are a list of any values.
\<close>

definition typed_state :: "json \<Rightarrow> bool" where
  "typed_state st =
     (ready st \<and> list_all wf_turn (history_of st)
      \<and> (case lookup st (lit ''user_preferences'') of None \<Rightarrow> True | Some p \<Rightarrow> is_obj p))"

text \<open>
  Readings used to state what a prompt carries: the string of a niche, the topic of a
  turn, the tone of the preferences (\<open>friendly\<close> if there is none), the analysis with
  the raw input attached as \<open>run\<close> does, and \<open>d.get(k, default)\<close> on a dict.
\<close>

definition the_str :: "json \<Rightarrow> pystr" where
  "the_str x = (case x of JStr s \<Rightarrow> s | _ \<Rightarrow> [])"

definition turn_topic :: "json \<Rightarrow> json" where
  "turn_topic h = (case lookup h (lit ''analysis'') of None \<Rightarrow> JStr [] | Some a \<Rightarrow> topic_of a)"

definition pref_tone :: "json \<Rightarrow> json" where
  "pref_tone st =
     (case lookup st (lit ''user_preferences'') of
        None \<Rightarrow> JStr (lit ''friendly'')
      | Some p \<Rightarrow> (case lookup p (lit ''tone'') of None \<Rightarrow> JStr (lit ''friendly'') | Some t \<Rightarrow> t))"

definition attach_input :: "pystr \<Rightarrow> json \<Rightarrow> json" where
  "attach_input u a =
     (case a of JObj kvs \<Rightarrow> JObj (dict_set (lit ''user_input'') (JStr u) kvs) | _ \<Rightarrow> a)"

definition get_or :: "json \<Rightarrow> pystr \<Rightarrow> json \<Rightarrow> json" where
  "get_or a k d = (case lookup a k of None \<Rightarrow> d | Some v \<Rightarrow> v)"

text \<open>
  What the decoder makes of the reply to the intent prompt for the input \<open>u\<close>, in the
  world \<open>w\<close>: the value it returns, or the exception it raises.
\<close>

abbreviation intent_reply :: "env \<Rightarrow> pystr \<Rightarrow> world \<Rightarrow> py_error + json" where
  "intent_reply ev u w \<equiv>
     json_loads (max_digits ev) (reply_depth ev)
       (py_strip (gen ev (length (sent w)) (IntentPrompt u)))"

subsection \<open>Scenarios\<close>

text \<open>
  The world that a first start leaves when the file could be written, and the request
  of the scenario of the specification.
\<close>

definition fresh :: world where
  "fresh = \<lparr>state = default_state, disk = Dumped default_state,
            sent = [], ticks = 0, writes = 1, console = []\<rparr>"

definition request :: pystr where
  "request = lit ''fun prompt about sustainable fashion for beginners''"

text \<open>
  Environments. In all of them the clock shows the same time, the interpreter has its
  default limit of 4300 digits and 990 levels of recursion left for the decoder, and
  \<open>rich\<close> prints every text but one with the closing tag \<open>[/this]\<close>, which closes
  nothing. In \<open>quiet_env\<close> the model answers \<open>reply\<close> to every prompt and every write
  of the state file succeeds.
\<close>

definition rich_print :: "pystr \<Rightarrow> pystr option" where
  "rich_print t =
     (if py_substring (lit ''[/this]'') t
      then Some (lit ''closing tag '' @ [39] @ lit ''[/this]'' @ [39]
                 @ lit '' does not match any open tag'')
      else None)"

definition quiet_env :: "pystr \<Rightarrow> env" where
  "quiet_env reply =
     \<lparr>gen = (\<lambda>k p. reply), now = (\<lambda>k. lit ''2024-05-01T10:00:00''),
      store = (\<lambda>k. Written), max_digits = 4300, file_depth = 990, reply_depth = 990,
      rich = rich_print\<rparr>"

text \<open>
  A model that answers in prose, an endpoint that fails on every call, a model that
  answers the intent prompt with the JSON number 42, one that answers it with the
  intent asked for, and one that answers it with an object whose topic is a number.
\<close>

definition prose_env :: env where
  "prose_env = quiet_env (lit ''Here is an idea for you'')"

definition failing_env :: env where
  "failing_env = quiet_env (lit ''API Error: 503 Server Error'')"

definition number_env :: env where
  "number_env = quiet_env (lit ''42'')"

definition fashion_intent :: json where
  "fashion_intent =
     JObj [(lit ''topic'', JStr (lit ''sustainable fashion'')),
           (lit ''tone'', JStr (lit ''fun'')),
           (lit ''constraints'', JStr (lit ''for beginners''))]"

definition fashion_env :: env where
  \<open>fashion_env =
     (quiet_env [])
       \<lparr>gen := (\<lambda>k p. case p of
                 IntentPrompt u \<Rightarrow>
                   lit ''{"topic": "sustainable fashion", "tone": "fun", "constraints": "for beginners"}''
               | _ \<Rightarrow> lit ''Hook, then question, then challenge'')\<rparr>\<close>

definition five_env :: env where
  \<open>five_env = quiet_env (lit ''{"topic": 5, "tone": "fun"}'')\<close>

text \<open>
  The model answers in prose and the state file, written at the first start, cannot be
  opened for writing any more.
\<close>

definition readonly_env :: env where
  "readonly_env =
     prose_env\<lparr>store := (\<lambda>k. if k = 0 then Written else Refused PermissionError)\<rparr>"

text \<open>The model answers every prompt with a text that holds a closing tag.\<close>

definition tag_env :: env where
  "tag_env = quiet_env (lit ''Try [/this] idea'')"

text \<open>A sequence of intents with repeated, empty and missing topics.\<close>

definition sample_intents :: "json list" where
  "sample_intents =
     [JObj [(lit ''topic'', JStr (lit ''cats''))],
      JObj [(lit ''topic'', JStr [])],
      JObj [(lit ''topic'', JStr (lit ''dogs''))],
      JObj [(lit ''topic'', JStr (lit ''cats''))],
      JObj [(lit ''tone'', JStr (lit ''fun''))],
      JObj [(lit ''topic'', JStr (lit ''Cats''))]]"

section \<open>Proofs\<close>

subsection \<open>Strings and dicts\<close>

lemma lit_Nil: "lit [] = []"
  by (simp add: lit_def)

lemma lit_Cons: "lit (c # cs) = of_char c # lit cs"
  by (simp add: lit_def)

lemma lit_eq_iff [simp]: "lit a = lit b \<longleftrightarrow> a = b"
  by (simp add: lit_def inj_map_eq_map inj_on_def)

lemma map_of_dict_set [simp]:
  "map_of (dict_set k v kvs) k' = (if k' = k then Some v else map_of kvs k')"
  by (induction kvs) auto

lemma lookup_JObj [simp]: "lookup (JObj kvs) k = map_of kvs k"
  by (simp add: lookup_def)

lemma is_obj_iff: "is_obj x \<longleftrightarrow> (\<exists>kvs. x = JObj kvs)"
  by (cases x) auto

lemma is_str_iff: "is_str x \<longleftrightarrow> (\<exists>s. x = JStr s)"
  by (cases x) auto

text \<open>The equations that evaluate the decoder on a given text.\<close>

lemmas decode_simps =
  json_loads_def skip_ws_def is_ws_def lit_Cons lit_Nil scanstring.simps scan_once.simps
  scan_array.simps scan_object.simps match_number_def match_frac_def match_exp_def
  is_digit_def digits_val_def decode_uXXXX_def hexval_def backslash_def

lemma all_space_strip:
  assumes "list_all py_isspace s"
  shows "py_strip s = []"
proof -
  have h: "dropWhile py_isspace s = []"
    using assms by (simp add: list_all_iff)
  show ?thesis unfolding py_strip_def h by simp
qed

lemma all_space_not_command:
  assumes "list_all py_isspace s"
  shows "py_lower s \<noteq> lit ''exit''" and "py_lower s \<noteq> lit ''quit''"
proof -
  have "s = [] \<or> (\<exists>c r. s = c # r \<and> py_isspace c)"
    using assms by (cases s) auto
  then show "py_lower s \<noteq> lit ''exit''" "py_lower s \<noteq> lit ''quit''"
    by (auto simp: py_lower_def lit_Cons lit_Nil py_isspace_def split: if_splits)
qed

subsection \<open>The decoder reads at least one character for a value\<close>

lemma is_prefix_length: "is_prefix t s \<Longrightarrow> length t \<le> length s"
  by (induction t s rule: is_prefix.induct) auto

lemma match_frac_length: "match_frac s = (f, r) \<Longrightarrow> length r \<le> length s"
  using length_dropWhile_le [of is_digit]
  by (auto simp: match_frac_def le_Suc_eq split: list.splits if_splits)

lemma match_exp_length: "match_exp s = (e, r) \<Longrightarrow> length r \<le> length s"
  using length_dropWhile_le [of is_digit]
  by (auto simp: match_exp_def le_Suc_eq split: list.splits if_splits)

lemma match_number_length:
  assumes "match_number md s = Some (Inr (v, r))"
  shows "length r < length s"
proof -
  define s1 where "s1 = (if s \<noteq> [] \<and> hd s = 45 then tl s else s)"
  have l1: "length s1 \<le> length s" by (simp add: s1_def)
  obtain d t where s1: "s1 = d # t" and dig: "is_digit d"
    using assms by (cases s1) (auto simp: match_number_def s1_def Let_def split: if_splits)
  define s2 where "s2 = (if d = 48 then t else dropWhile is_digit t)"
  have l2: "length s2 \<le> length t" by (simp add: s2_def length_dropWhile_le)
  obtain f s3 where f: "match_frac s2 = (f, s3)" by (cases "match_frac s2")
  obtain e s4 where e: "match_exp s3 = (e, s4)" by (cases "match_exp s3")
  have "r = s4"
    using assms s1 dig f e
    by (auto simp: match_number_def s1_def [symmetric] s2_def [symmetric] Let_def
             split: if_splits)
  then show ?thesis
    using l1 l2 match_frac_length [OF f] match_exp_length [OF e] s1 by simp
qed

lemma drop_prefix_length: "is_prefix t s \<Longrightarrow> t \<noteq> [] \<Longrightarrow> length (drop (length t) s) < length s"
  using is_prefix_length [of t s] by (cases s) auto

lemma scan_once_other:
  assumes "scan_once md d (c # cs) = Inr (v, r)" and "c \<noteq> 34" and "c \<noteq> 123" and "c \<noteq> 91"
  shows "length r < length (c # cs)"
proof -
  have "(if is_prefix (lit ''null'') (c # cs) then Inr (JNull, drop 4 (c # cs))
          else if is_prefix (lit ''true'') (c # cs) then Inr (JBool True, drop 4 (c # cs))
          else if is_prefix (lit ''false'') (c # cs) then Inr (JBool False, drop 5 (c # cs))
          else
            (case match_number md (c # cs) of
               Some res \<Rightarrow> res
             | None \<Rightarrow>
                 if is_prefix (lit ''NaN'') (c # cs) then Inr (JFloat NaN, drop 3 (c # cs))
                 else if is_prefix (lit ''Infinity'') (c # cs) then Inr (JFloat PosInf, drop 8 (c # cs))
                 else if is_prefix (lit ''-Infinity'') (c # cs) then Inr (JFloat NegInf, drop 9 (c # cs))
                 else Inl JSONDecodeError)) = Inr (v, r)"
    using assms(1) by (subst (asm) scan_once.simps) (simp only: list.case assms(2-4) if_False)
  then show ?thesis
    by (auto split: if_splits option.splits dest!: is_prefix_length match_number_length
             simp: lit_def)
qed

lemma scan_once_length:
  "scan_once md d s = Inr (v, r) \<Longrightarrow> length r < length s"
  "scan_array md' d' acc s = Inr (v, r) \<Longrightarrow> length r < length s"
  "scan_object md'' d'' oacc s = Inr (v, r) \<Longrightarrow> length r < length s"
proof (induction md d s and md' d' acc s and md'' d'' oacc s arbitrary: v r and v r and v r
       rule: scan_once_scan_array_scan_object.induct)
  case (1 md d s)
  obtain c cs where s: "s = c # cs"
    using "1.prems" by (cases s) (auto simp: scan_once.simps)
  consider (str) "c = 34" | (obj) "c \<noteq> 34" "c = 123" | (arr) "c \<noteq> 34" "c \<noteq> 123" "c = 91"
    | (other) "c \<noteq> 34" "c \<noteq> 123" "c \<noteq> 91" by blast
  then show ?case
  proof cases
    case str
    then obtain t where "scanstring [] cs = Some (t, r)"
      using "1.prems" by (auto simp: scan_once.simps s split: option.splits sum.splits)
    then show ?thesis using scanstring_length s by fastforce
  next
    case obj
    have d0: "d \<noteq> 0"
      using "1.prems" obj by (auto simp: scan_once.simps s split: if_splits)
    obtain c' r0 where sk: "skip_ws cs = c' # r0"
      using "1.prems" obj d0 by (cases "skip_ws cs") (auto simp: scan_once.simps s)
    have l0: "length r0 < length cs" using sk by (rule skip_ws_Cons_length)
    show ?thesis
    proof (cases "c' = 125")
      case True
      then have "r = r0" using "1.prems" obj sk d0 by (simp add: scan_once.simps s)
      then show ?thesis using l0 s by simp
    next
      case False
      then have q: "c' = 34" and so: "scan_object md (d - 1) [] r0 = Inr (v, r)"
        using "1.prems" obj sk d0 by (auto simp: scan_once.simps s split: if_splits)
      have "length r < length r0"
        using "1.IH"(1) s obj sk False q so d0 by blast
      then show ?thesis using l0 s by simp
    qed
  next
    case arr
    have d0: "d \<noteq> 0"
      using "1.prems" arr by (auto simp: scan_once.simps s split: if_splits)
    obtain c' r0 where sk: "skip_ws cs = c' # r0"
      using "1.prems" arr d0 by (cases "skip_ws cs") (auto simp: scan_once.simps s)
    have l0: "length r0 < length cs" using sk by (rule skip_ws_Cons_length)
    show ?thesis
    proof (cases "c' = 93")
      case True
      then have "r = r0" using "1.prems" arr sk d0 by (simp add: scan_once.simps s)
      then show ?thesis using l0 s by simp
    next
      case False
      then have sa: "scan_array md (d - 1) [] (c' # r0) = Inr (v, r)"
        using "1.prems" arr sk d0 by (auto simp: scan_once.simps s split: if_splits)
      have "length r < length (c' # r0)"
        using "1.IH"(2) s arr sk False sa d0 by blast
      then show ?thesis using l0 s by simp
    qed
  next
    case other
    show ?thesis
      using scan_once_other [of md d c cs v r] "1.prems" other by (simp add: s)
  qed
next
  case (2 md d acc s)
  obtain x r0 where so: "scan_once md d s = Inr (x, r0)" and l0: "length r0 < length s"
    using "2.prems" by (auto simp: scan_array.simps [of md d acc s] split: option.splits sum.splits if_splits)
  obtain c r1 where sk: "skip_ws r0 = c # r1"
    using "2.prems" so l0 by (cases "skip_ws r0") (auto simp: scan_array.simps [of md d acc s])
  have l1: "length r1 < length r0" using sk by (rule skip_ws_Cons_length)
  show ?case
  proof (cases "c = 93")
    case True
    then have "r = r1" using "2.prems" so l0 sk by (simp add: scan_array.simps [of md d acc s])
    then show ?thesis using l0 l1 by simp
  next
    case False
    then have c: "c = 44" and sa: "scan_array md d (acc @ [x]) (skip_ws r1) = Inr (v, r)"
      using "2.prems" so l0 sk by (auto simp: scan_array.simps [of md d acc s] split: if_splits)
    have "length r < length (skip_ws r1)"
      using "2.IH"(2) so l0 sk False c sa by blast
    then show ?thesis using l0 l1 skip_ws_length [of r1] by simp
  qed
next
  case (3 md d acc s)
  obtain k r0 where ss: "scanstring [] s = Some (k, r0)"
    using "3.prems" by (auto simp: scan_object.simps [of md d acc s] split: option.splits sum.splits)
  obtain c r1 where sk: "skip_ws r0 = c # r1"
    using "3.prems" ss by (cases "skip_ws r0") (auto simp: scan_object.simps [of md d acc s])
  have c: "c = 58"
    using "3.prems" ss sk by (auto simp: scan_object.simps [of md d acc s] split: if_splits)
  obtain x r2 where so: "scan_once md d (skip_ws r1) = Inr (x, r2)"
    using "3.prems" ss sk c by (auto simp: scan_object.simps [of md d acc s] split: option.splits sum.splits)
  have l2: "length r2 < length s"
    using "3.prems" ss sk c so by (auto simp: scan_object.simps [of md d acc s] split: if_splits)
  obtain c2 r3 where sk2: "skip_ws r2 = c2 # r3"
    using "3.prems" ss sk c so l2 by (cases "skip_ws r2") (auto simp: scan_object.simps [of md d acc s])
  have l3: "length r3 < length r2" using sk2 by (rule skip_ws_Cons_length)
  show ?case
  proof (cases "c2 = 125")
    case True
    then have "r = r3"
      using "3.prems" ss sk c so l2 sk2 by (simp add: scan_object.simps [of md d acc s])
    then show ?thesis using l2 l3 by simp
  next
    case False
    then have c2: "c2 = 44"
      using "3.prems" ss sk c so l2 sk2
      by (auto simp: scan_object.simps [of md d acc s] split: if_splits)
    obtain c3 r4 where sk3: "skip_ws r3 = c3 # r4"
      using "3.prems" ss sk c so l2 sk2 c2
      by (cases "skip_ws r3") (auto simp: scan_object.simps [of md d acc s])
    have l4: "length r4 < length r3" using sk3 by (rule skip_ws_Cons_length)
    have c3: "c3 = 34" and rec: "scan_object md d (dict_set k x acc) r4 = Inr (v, r)"
      using "3.prems" ss sk c so l2 sk2 c2 sk3
      by (auto simp: scan_object.simps [of md d acc s] split: if_splits)
    have "length r < length r4"
      using "3.IH"(2) ss sk c so l2 sk2 False c2 sk3 c3 rec by blast
    then show ?thesis using l2 l3 l4 by simp
  qed
qed

subsection \<open>update_state\<close>

lemma ensure_key_obj:
  "ensure_key k (JObj kvs) =
     Inr (JObj (if map_of kvs k = None then dict_set k (JArr []) kvs else kvs))"
  by (simp add: ensure_key_def)

lemma add_niche_obj:
  assumes "map_of kvs (lit ''niches'') = Some (JArr ns)"
  shows "add_niche (JObj akvs) (JObj kvs) =
           Inr (JObj (if py_truthy (topic_of (JObj akvs))
                          \<and> \<not> list_ex (\<lambda>x. py_same x (topic_of (JObj akvs))) ns
                      then dict_set (lit ''niches'') (JArr (ns @ [topic_of (JObj akvs)])) kvs
                      else kvs))"
  using assms by (simp add: add_niche_def topic_of_def split: option.splits)

lemma add_turn_obj:
  assumes "map_of kvs (lit ''history'') = Some (JArr hs)"
  shows "add_turn ts (JObj akvs) (JObj kvs) =
           Inr (JObj (dict_set (lit ''history'') (JArr (last3 (hs @ [turn_of ts (JObj akvs)]))) kvs))"
  using assms by (simp add: add_turn_def turn_of_def split: option.splits)

lemma update_state_ready:
  assumes "ready (state w)" and "is_obj a"
  shows "\<exists>kvs'. update_state ev a w =
            save_state ev (w\<lparr>state := JObj kvs', ticks := Suc (ticks w)\<rparr>)
          \<and> map_of kvs' (lit ''niches'') = Some (JArr (merge_niche (niches_of (state w)) (topic_of a)))
          \<and> map_of kvs' (lit ''history'')
              = Some (JArr (last3 (history_of (state w) @ [turn_of (now ev (ticks w)) a])))
          \<and> (\<forall>k. k \<noteq> lit ''niches'' \<and> k \<noteq> lit ''history''
                \<longrightarrow> map_of kvs' k = lookup (state w) k)"
proof -
  obtain kvs akvs where st: "state w = JObj kvs" and a: "a = JObj akvs"
    using assms by (auto simp: ready_def is_obj_iff)
  define kvs1 where "kvs1 = (if map_of kvs (lit ''niches'') = None
                             then dict_set (lit ''niches'') (JArr []) kvs else kvs)"
  define kvs2 where "kvs2 = (if map_of kvs1 (lit ''history'') = None
                             then dict_set (lit ''history'') (JArr []) kvs1 else kvs1)"
  have n2: "map_of kvs2 (lit ''niches'') = Some (JArr (niches_of (state w)))"
    using assms(1) st
    by (auto simp: ready_def kvs1_def kvs2_def niches_of_def split: option.splits json.splits)
  have h2: "map_of kvs2 (lit ''history'') = Some (JArr (history_of (state w)))"
    using assms(1) st
    by (auto simp: ready_def kvs1_def kvs2_def history_of_def split: option.splits json.splits)
  have o2: "\<forall>k. k \<noteq> lit ''niches'' \<and> k \<noteq> lit ''history'' \<longrightarrow> map_of kvs2 k = map_of kvs k"
    by (simp add: kvs1_def kvs2_def)
  define kvs3 where "kvs3 = (if py_truthy (topic_of a)
                                \<and> \<not> list_ex (\<lambda>x. py_same x (topic_of a)) (niches_of (state w))
                             then dict_set (lit ''niches'')
                                    (JArr (niches_of (state w) @ [topic_of a])) kvs2
                             else kvs2)"
  have e1: "ensure_key (lit ''niches'') (state w) = Inr (JObj kvs1)"
    by (simp add: st ensure_key_obj kvs1_def)
  have e2: "ensure_key (lit ''history'') (JObj kvs1) = Inr (JObj kvs2)"
    by (simp add: ensure_key_obj kvs2_def)
  have e3: "add_niche a (JObj kvs2) = Inr (JObj kvs3)"
    unfolding a using add_niche_obj [OF n2, of akvs] by (simp add: kvs3_def a)
  have h3: "map_of kvs3 (lit ''history'') = Some (JArr (history_of (state w)))"
    using h2 by (simp add: kvs3_def)
  define kvs4 where "kvs4 = dict_set (lit ''history'')
        (JArr (last3 (history_of (state w) @ [turn_of (now ev (ticks w)) a]))) kvs3"
  have e4: "add_turn (now ev (ticks w)) a (JObj kvs3) = Inr (JObj kvs4)"
    unfolding a using add_turn_obj [OF h3, of "now ev (ticks w)" akvs] by (simp add: kvs4_def a)
  have "update_state ev a w =
          save_state ev (w\<lparr>state := JObj kvs4, ticks := Suc (ticks w)\<rparr>)"
    by (simp add: update_state_def e1 e2 e3 e4)
  moreover have "map_of kvs4 (lit ''niches'')
                   = Some (JArr (merge_niche (niches_of (state w)) (topic_of a)))"
    using n2 by (simp add: kvs4_def kvs3_def merge_niche_def)
  moreover have "map_of kvs4 (lit ''history'')
              = Some (JArr (last3 (history_of (state w) @ [turn_of (now ev (ticks w)) a])))"
    by (simp add: kvs4_def)
  moreover have "\<forall>k. k \<noteq> lit ''niches'' \<and> k \<noteq> lit ''history''
                \<longrightarrow> map_of kvs4 k = lookup (state w) k"
    using o2 by (simp add: kvs4_def kvs3_def st)
  ultimately show ?thesis by blast
qed

text \<open>\<open>save_state\<close> touches the file and the count of the writes only.\<close>

lemma save_state_world:
  "state (snd (save_state ev w)) = state w" "sent (snd (save_state ev w)) = sent w"
  "ticks (snd (save_state ev w)) = ticks w" "console (snd (save_state ev w)) = console w"
  "writes (snd (save_state ev w)) = Suc (writes w)"
  by (simp_all add: save_state_def split: write_outcome.splits)

lemma save_state_Inr_iff:
  "save_state ev w = (Inr x, w') \<longleftrightarrow>
     store ev (writes w) = Written
     \<and> w' = w\<lparr>disk := Dumped (state w), writes := Suc (writes w)\<rparr>"
  by (auto simp: save_state_def split: write_outcome.splits)

lemma save_state_outcome:
  "save_state ev w =
     (case store ev (writes w) of
        Written \<Rightarrow> (Inr (), w\<lparr>disk := Dumped (state w), writes := Suc (writes w)\<rparr>)
      | Refused e \<Rightarrow> (Inl e, w\<lparr>writes := Suc (writes w)\<rparr>)
      | Broken e t \<Rightarrow> (Inl e, w\<lparr>disk := Text t, writes := Suc (writes w)\<rparr>))"
  by (simp add: save_state_def)

text \<open>
  On a state whose two lists are lists, \<open>update_state\<close> with a dict as analysis
  changes \<open>self.state\<close> in full, whether the file can be written or not.
\<close>

lemma update_state_memory:
  assumes "ready (state w)" and "is_obj a"
  shows "niches_of (state (snd (update_state ev a w)))
           = merge_niche (niches_of (state w)) (topic_of a)"
    and "history_of (state (snd (update_state ev a w)))
           = last3 (history_of (state w) @ [turn_of (now ev (ticks w)) a])"
    and "ready (state (snd (update_state ev a w)))"
    and "k \<noteq> lit ''niches'' \<Longrightarrow> k \<noteq> lit ''history'' \<Longrightarrow>
           lookup (state (snd (update_state ev a w))) k = lookup (state w) k"
    and "update_state ev a w
           = save_state ev (w\<lparr>state := state (snd (update_state ev a w)), ticks := Suc (ticks w)\<rparr>)"
proof -
  obtain kvs' where
    up: "update_state ev a w = save_state ev (w\<lparr>state := JObj kvs', ticks := Suc (ticks w)\<rparr>)"
    and n': "map_of kvs' (lit ''niches'') = Some (JArr (merge_niche (niches_of (state w)) (topic_of a)))"
    and h': "map_of kvs' (lit ''history'')
               = Some (JArr (last3 (history_of (state w) @ [turn_of (now ev (ticks w)) a])))"
    and o': "\<forall>k. k \<noteq> lit ''niches'' \<and> k \<noteq> lit ''history''
                \<longrightarrow> map_of kvs' k = lookup (state w) k"
    using update_state_ready [OF assms, of ev] by blast
  have st: "state (snd (update_state ev a w)) = JObj kvs'"
    by (simp add: up save_state_world)
  show "niches_of (state (snd (update_state ev a w)))
           = merge_niche (niches_of (state w)) (topic_of a)"
    using n' by (simp add: st niches_of_def)
  show "history_of (state (snd (update_state ev a w)))
           = last3 (history_of (state w) @ [turn_of (now ev (ticks w)) a])"
    using h' by (simp add: st history_of_def)
  show "ready (state (snd (update_state ev a w)))"
    using n' h' by (simp add: st ready_def)
  show "k \<noteq> lit ''niches'' \<Longrightarrow> k \<noteq> lit ''history'' \<Longrightarrow>
           lookup (state (snd (update_state ev a w))) k = lookup (state w) k"
    using o' by (simp add: st)
  show "update_state ev a w
           = save_state ev (w\<lparr>state := state (snd (update_state ev a w)), ticks := Suc (ticks w)\<rparr>)"
    unfolding st by (rule up)
qed

text \<open>Inversion: what a successful update says about the state before and after.\<close>

lemma py_append_Inr_iff:
  "py_append x y = Inr z \<longleftrightarrow> (\<exists>xs. x = JArr xs \<and> z = JArr (xs @ [y]))"
  by (cases x) auto

lemma py_setitem_Inr_iff:
  "py_setitem x k v = Inr z \<longleftrightarrow> (\<exists>kvs. x = JObj kvs \<and> z = JObj (dict_set k v kvs))"
  by (cases x) auto

lemma py_getitem_Inr_iff:
  "py_getitem x k = Inr v \<longleftrightarrow> (\<exists>kvs. x = JObj kvs \<and> map_of kvs k = Some v)"
  by (cases x) (auto split: option.splits)

lemma py_get_Inr_iff:
  "py_get x k d = Inr v \<longleftrightarrow> (\<exists>kvs. x = JObj kvs \<and> v = (case map_of kvs k of None \<Rightarrow> d | Some y \<Rightarrow> y))"
  by (cases x) (auto split: option.splits)

lemma ensure_key_Inr:
  assumes "ensure_key k st = Inr st'"
  shows "is_obj st' \<longrightarrow> is_obj st"
    and "k' \<noteq> k \<Longrightarrow> lookup st' k' = lookup st k'"
    and "lookup st' k = (case lookup st k of None \<Rightarrow> (if is_obj st then Some (JArr []) else None) | Some v \<Rightarrow> Some v)"
  using assms
  by (cases st; auto simp: ensure_key_def lookup_def split: if_splits sum.splits json.splits)+

lemma add_niche_Inr:
  assumes "add_niche a st = Inr st'"
  shows "is_obj st' \<longrightarrow> is_obj st" and "is_obj a"
    and "k' \<noteq> lit ''niches'' \<Longrightarrow> lookup st' k' = lookup st k'"
  using assms
  by (cases st; cases a;
      auto simp: add_niche_def lookup_def split: if_splits sum.splits json.splits option.splits)+

lemma add_turn_Inr:
  assumes "add_turn ts a st = Inr st'"
  shows "\<exists>kvs hs. st = JObj kvs \<and> map_of kvs (lit ''history'') = Some (JArr hs)
           \<and> st' = JObj (dict_set (lit ''history'') (JArr (last3 (hs @ [turn_of ts a]))) kvs)"
  using assms
  by (auto simp: add_turn_def turn_of_def py_append_Inr_iff py_setitem_Inr_iff
                 py_getitem_Inr_iff py_get_Inr_iff
           split: sum.splits option.splits)


lemma update_state_Inr:
  assumes "update_state ev a w = (Inr u, w')"
  shows "is_obj a" and "is_obj (state w)" and "is_obj (state w')"
    and "history_of (state w') = last3 (history_of (state w) @ [turn_of (now ev (ticks w)) a])"
    and "ticks w' = Suc (ticks w)" and "disk w' = Dumped (state w')"
    and "sent w' = sent w" and "console w' = console w"
    and "store ev (writes w) = Written" and "writes w' = Suc (writes w)"
proof -
  obtain st1 st2 st3 st4 where
    e1: "ensure_key (lit ''niches'') (state w) = Inr st1" and
    e2: "ensure_key (lit ''history'') st1 = Inr st2" and
    e3: "add_niche a st2 = Inr st3" and
    e4: "add_turn (now ev (ticks w)) a st3 = Inr st4" and
    sv: "save_state ev (w\<lparr>state := st4, ticks := Suc (ticks w)\<rparr>) = (Inr u, w')"
    using assms by (auto simp: update_state_def split: sum.splits)
  have w': "w' = w\<lparr>state := st4, ticks := Suc (ticks w), disk := Dumped st4,
                     writes := Suc (writes w)\<rparr>"
    and wr: "store ev (writes w) = Written"
    using sv by (simp_all add: save_state_Inr_iff)
  obtain kvs hs where st3: "st3 = JObj kvs"
    and hs: "map_of kvs (lit ''history'') = Some (JArr hs)"
    and st4: "st4 = JObj (dict_set (lit ''history'')
                      (JArr (last3 (hs @ [turn_of (now ev (ticks w)) a]))) kvs)"
    using add_turn_Inr [OF e4] by blast
  show "is_obj a" using add_niche_Inr(2) [OF e3] .
  have o2: "is_obj st2" using add_niche_Inr(1) [OF e3] st3 by simp
  then have o1: "is_obj st1" using ensure_key_Inr(1) [OF e2] by simp
  then show o0: "is_obj (state w)" using ensure_key_Inr(1) [OF e1] by simp
  show "is_obj (state w')" by (simp add: w' st4)
  have "lookup st3 (lit ''history'') = lookup st2 (lit ''history'')"
    using add_niche_Inr(3) [OF e3, of "lit ''history''"] by simp
  moreover have "lookup st2 (lit ''history'')
      = (case lookup st1 (lit ''history'') of None \<Rightarrow> Some (JArr []) | Some v \<Rightarrow> Some v)"
    using ensure_key_Inr(3) [OF e2] o1 by simp
  moreover have "lookup st1 (lit ''history'') = lookup (state w) (lit ''history'')"
    using ensure_key_Inr(2) [OF e1, of "lit ''history''"] by simp
  ultimately have "history_of (state w) = hs"
    using hs st3 by (auto simp: history_of_def split: option.splits json.splits)
  then show "history_of (state w')
               = last3 (history_of (state w) @ [turn_of (now ev (ticks w)) a])"
    by (simp add: w' st4 history_of_def)
  show "ticks w' = Suc (ticks w)" "disk w' = Dumped (state w')"
       "sent w' = sent w" "console w' = console w" "writes w' = Suc (writes w)"
    by (simp_all add: w')
  show "store ev (writes w) = Written" by (rule wr)
qed

subsection \<open>The other stages\<close>

lemma input_understanding_eq:
  "input_understanding ev u w =
     (case intent_reply ev u w of
        Inl e \<Rightarrow> (fallback_intent,
                  w\<lparr>sent := sent w @ [IntentPrompt u], console := console w @ [ParseError]\<rparr>)
      | Inr v \<Rightarrow> (v, w\<lparr>sent := sent w @ [IntentPrompt u]\<rparr>))"
  by (simp add: input_understanding_def generate_content_def split: sum.splits)

lemma input_understanding_world:
  assumes "input_understanding ev u w = (a0, w1)"
  shows "state w1 = state w" and "disk w1 = disk w" and "ticks w1 = ticks w"
    and "sent w1 = sent w @ [IntentPrompt u]" and "writes w1 = writes w"
  using assms by (auto simp: input_understanding_eq split: sum.splits)

lemma plan_task_world:
  "state (snd (plan_task ev a w)) = state w" "disk (snd (plan_task ev a w)) = disk w"
  "ticks (snd (plan_task ev a w)) = ticks w" "writes (snd (plan_task ev a w)) = writes w"
  by (simp_all add: plan_task_def generate_content_def split: sum.splits)

lemma plan_task_Inl: "plan_task ev a w = (Inl e, w') \<Longrightarrow> w' = w"
  by (auto simp: plan_task_def generate_content_def split: sum.splits)

lemma generate_output_world:
  "state (snd (generate_output ev plan w)) = state w"
  "disk (snd (generate_output ev plan w)) = disk w"
  "ticks (snd (generate_output ev plan w)) = ticks w"
  "writes (snd (generate_output ev plan w)) = writes w"
  by (simp_all add: generate_output_def generate_content_def split: sum.splits)

lemma plan_task_Inr_iff:
  "plan_task ev a w = (Inr plan, w') \<longleftrightarrow>
     (\<exists>p. plan_prompt a (state w) = Inr p \<and> plan = gen ev (length (sent w)) p
          \<and> w' = w\<lparr>sent := sent w @ [p]\<rparr>)"
  by (auto simp: plan_task_def generate_content_def split: sum.splits)

lemma generate_output_Inr_iff:
  "generate_output ev plan w = (Inr out, w') \<longleftrightarrow>
     (\<exists>prefs tone.
        py_get (state w) (lit ''user_preferences'') (JObj []) = Inr prefs
        \<and> py_get prefs (lit ''tone'') (JStr (lit ''friendly'')) = Inr tone
        \<and> out = gen ev (length (sent w)) (RenderPrompt plan tone)
        \<and> w' = w\<lparr>sent := sent w @ [RenderPrompt plan tone]\<rparr>)"
  by (auto simp: generate_output_def generate_content_def split: sum.splits)

lemma attach_input_setitem:
  "py_setitem a0 (lit ''user_input'') (JStr u) = Inr a \<longleftrightarrow> is_obj a0 \<and> a = attach_input u a0"
  by (cases a0) (auto simp: attach_input_def)

lemma run_Inr_iff:
  "run ev u w = (Inr out, w') \<longleftrightarrow>
     (\<exists>a0 w1 w2 plan w3.
        input_understanding ev u w = (a0, w1) \<and> is_obj a0
        \<and> update_state ev (attach_input u a0) w1 = (Inr (), w2)
        \<and> plan_task ev (attach_input u a0) w2 = (Inr plan, w3)
        \<and> generate_output ev plan w3 = (Inr out, w'))"
proof -
  obtain a0 w1 where iu: "input_understanding ev u w = (a0, w1)"
    by (cases "input_understanding ev u w")
  show ?thesis
  proof (cases "is_obj a0")
    case False
    then have "py_setitem a0 (lit ''user_input'') (JStr u) = Inl TypeError"
      by (cases a0) auto
    then show ?thesis using False by (simp add: run_def iu)
  next
    case True
    then have s: "py_setitem a0 (lit ''user_input'') (JStr u) = Inr (attach_input u a0)"
      by (simp add: attach_input_setitem)
    show ?thesis
      by (auto simp: run_def iu s True split: sum.splits prod.splits)
  qed
qed


subsection \<open>Lists\<close>

lemma last3_snoc: "last3 (last3 xs @ [x]) = last3 (xs @ [x])"
proof -
  have "length xs - Suc (Suc (length xs - 3)) + (length xs - 3) = length xs - 2"
    by arith
  then show ?thesis by (simp add: last3_def)
qed

lemma last3_Nil [simp]: "last3 [] = []"
  by (simp add: last3_def)

lemma length_last3: "length (last3 xs) = min (length xs) 3"
  by (simp add: last3_def)

lemma map_last3: "map f (last3 xs) = last3 (map f xs)"
  by (simp add: last3_def drop_map)

lemma last_last3_snoc: "last (last3 (xs @ [x])) = x" and last3_snoc_not_Nil: "last3 (xs @ [x]) \<noteq> []"
  by (simp_all add: last3_def)

lemma list_all_last3: "list_all P xs \<Longrightarrow> list_all P (last3 xs)"
  by (auto simp: last3_def list_all_iff dest: in_set_dropD)

lemma strs_of_Inr: "strs_of xs = Inr ss \<Longrightarrow> xs = map JStr ss"
  by (induction xs arbitrary: ss) (auto split: json.splits sum.splits)

lemma strs_of_strings: "strs_of (map JStr ss) = Inr ss"
  by (induction ss) auto

lemma history_topics_Inr: "history_topics hs = Inr ts \<Longrightarrow> ts = map turn_topic hs"
proof (induction hs arbitrary: ts)
  case Nil
  then show ?case by simp
next
  case (Cons h hs)
  then show ?case
    by (auto simp: py_getitem_Inr_iff py_get_Inr_iff turn_topic_def topic_of_def
             split: sum.splits option.splits)
qed

lemma history_topics_wf:
  "list_all wf_turn hs \<Longrightarrow> history_topics hs = Inr (map turn_topic hs)"
proof (induction hs)
  case Nil
  then show ?case by simp
next
  case (Cons h hs)
  then obtain kvs akvs where "h = JObj kvs" "map_of kvs (lit ''analysis'') = Some (JObj akvs)"
    by (cases h) (auto simp: wf_turn_def lookup_def is_obj_iff split: option.splits)
  then show ?case using Cons
    by (auto simp: turn_topic_def topic_of_def split: option.splits)
qed

subsection \<open>A completed request\<close>

lemma lookup_attach_input:
  "is_obj a0 \<Longrightarrow> lookup (attach_input u a0) k
     = (if k = lit ''user_input'' then Some (JStr u) else lookup a0 k)"
  by (auto simp: attach_input_def is_obj_iff)

lemma is_obj_attach_input: "is_obj a0 \<Longrightarrow> is_obj (attach_input u a0)"
  by (auto simp: attach_input_def is_obj_iff)

lemma turn_of_attach_input:
  "is_obj a0 \<Longrightarrow> turn_of ts (attach_input u a0)
     = JObj [(lit ''timestamp'', JStr ts), (lit ''analysis'', attach_input u a0),
             (lit ''user_input'', JStr u)]"
  by (simp add: turn_of_def lookup_attach_input)

lemma pref_tone_py_get:
  assumes "py_get st (lit ''user_preferences'') (JObj []) = Inr prefs"
    and "py_get prefs (lit ''tone'') (JStr (lit ''friendly'')) = Inr tone"
  shows "tone = pref_tone st"
  using assms
  by (auto simp: py_get_Inr_iff pref_tone_def split: option.splits)

lemma run_Inr_world:
  assumes "run ev u w = (Inr out, w')"
  defines "a \<equiv> attach_input u (fst (input_understanding ev u w))"
  shows "is_obj (fst (input_understanding ev u w))"
    and "history_of (state w') = last3 (history_of (state w) @ [turn_of (now ev (ticks w)) a])"
    and "ticks w' = Suc (ticks w)"
    and "disk w' = Dumped (state w')"
    and "is_obj (state w)"
    and "\<exists>p plan. plan_prompt a (state w') = Inr p
           \<and> plan = gen ev (Suc (length (sent w))) p
           \<and> out = gen ev (Suc (Suc (length (sent w)))) (RenderPrompt plan (pref_tone (state w')))
           \<and> sent w' = sent w @ [IntentPrompt u, p, RenderPrompt plan (pref_tone (state w'))]"
    and "update_state ev a (snd (input_understanding ev u w))
           = (Inr (), w'\<lparr>sent := sent w @ [IntentPrompt u]\<rparr>)"
    and "store ev (writes w) = Written"
    and "writes w' = Suc (writes w)"
proof -
  obtain a0 w1 w2 plan w3 where
    iu: "input_understanding ev u w = (a0, w1)" and obj: "is_obj a0" and
    up: "update_state ev (attach_input u a0) w1 = (Inr (), w2)" and
    pt: "plan_task ev (attach_input u a0) w2 = (Inr plan, w3)" and
    go: "generate_output ev plan w3 = (Inr out, w')"
    using assms(1) unfolding run_Inr_iff by blast
  have a: "a = attach_input u a0" by (simp add: a_def iu)
  note w1 = input_understanding_world [OF iu]
  note w2 = update_state_Inr [OF up]
  obtain p where p: "plan_prompt a (state w2) = Inr p"
    and plan: "plan = gen ev (length (sent w2)) p" and w3: "w3 = w2\<lparr>sent := sent w2 @ [p]\<rparr>"
    using pt unfolding plan_task_Inr_iff a by blast
  obtain prefs tone where
    pr: "py_get (state w3) (lit ''user_preferences'') (JObj []) = Inr prefs" and
    tn: "py_get prefs (lit ''tone'') (JStr (lit ''friendly'')) = Inr tone" and
    out: "out = gen ev (length (sent w3)) (RenderPrompt plan tone)" and
    w': "w' = w3\<lparr>sent := sent w3 @ [RenderPrompt plan tone]\<rparr>"
    using go unfolding generate_output_Inr_iff by blast
  have tone: "tone = pref_tone (state w2)"
    using pref_tone_py_get [OF pr tn] by (simp add: w3)
  have st: "state w' = state w2" by (simp add: w' w3)
  show "is_obj (fst (input_understanding ev u w))" by (simp add: iu obj)
  show "history_of (state w') = last3 (history_of (state w) @ [turn_of (now ev (ticks w)) a])"
    using w2(4) by (simp add: st w1 a)
  show "ticks w' = Suc (ticks w)" using w2(5) by (simp add: w' w3 w1)
  show "disk w' = Dumped (state w')" using w2(6) by (simp add: w' w3)
  show "is_obj (state w)" using w2(2) by (simp add: w1)
  have sent': "sent w' = sent w @ [IntentPrompt u, p, RenderPrompt plan tone]"
    by (simp add: w' w3 w2(7) w1)
  have plan': "plan = gen ev (Suc (length (sent w))) p"
    by (simp add: plan w2(7) w1)
  have out': "out = gen ev (Suc (Suc (length (sent w)))) (RenderPrompt plan tone)"
    by (simp add: out w3 w2(7) w1)
  show "\<exists>p plan. plan_prompt a (state w') = Inr p
           \<and> plan = gen ev (Suc (length (sent w))) p
           \<and> out = gen ev (Suc (Suc (length (sent w)))) (RenderPrompt plan (pref_tone (state w')))
           \<and> sent w' = sent w @ [IntentPrompt u, p, RenderPrompt plan (pref_tone (state w'))]"
    unfolding st tone [symmetric] using p plan' out' sent' by blast
  have "w'\<lparr>sent := sent w @ [IntentPrompt u]\<rparr> = w2"
    by (simp add: w' w3 w2(7) w1(4) [symmetric])
  then show "update_state ev a (snd (input_understanding ev u w))
           = (Inr (), w'\<lparr>sent := sent w @ [IntentPrompt u]\<rparr>)"
    using up by (simp add: iu a)
  show "store ev (writes w) = Written" using w2(9) by (simp add: w1)
  show "writes w' = Suc (writes w)" using w2(10) by (simp add: w' w3 w1)
qed

text \<open>
  A request whose analysis is a dict, whether it completes or not: \<open>run\<close> leaves the
  state and the file as \<open>update_state\<close> leaves them, and an exception of
  \<open>update_state\<close> is the exception of \<open>run\<close>.
\<close>

lemma run_after_update:
  assumes "is_obj (fst (input_understanding ev u w))"
  defines "a \<equiv> attach_input u (fst (input_understanding ev u w))"
  defines "w2 \<equiv> snd (update_state ev a (snd (input_understanding ev u w)))"
  shows "state (snd (run ev u w)) = state w2"
    and "disk (snd (run ev u w)) = disk w2"
    and "fst (update_state ev a (snd (input_understanding ev u w))) = Inl e \<Longrightarrow>
           run ev u w = (Inl e, w2)"
    and "fst (update_state ev a (snd (input_understanding ev u w))) = Inr x \<Longrightarrow>
           run ev u w =
             (case plan_task ev a w2 of
                (Inl e, w3) \<Rightarrow> (Inl e, w3)
              | (Inr plan, w3) \<Rightarrow> generate_output ev plan w3)"
proof -
  obtain a0 w1 where iu: "input_understanding ev u w = (a0, w1)"
    by (cases "input_understanding ev u w")
  have obj0: "is_obj a0" using assms(1) by (simp add: iu)
  have a: "a = attach_input u a0" by (simp add: a_def iu)
  have s: "py_setitem a0 (lit ''user_input'') (JStr u) = Inr (attach_input u a0)"
    by (simp add: attach_input_setitem obj0)
  obtain r w2' where up: "update_state ev (attach_input u a0) w1 = (r, w2')"
    by (cases "update_state ev (attach_input u a0) w1")
  have w2: "w2 = w2'" by (simp add: w2_def a_def iu up)
  obtain r3 w3 where pt: "plan_task ev (attach_input u a0) w2' = (r3, w3)"
    by (cases "plan_task ev (attach_input u a0) w2'")
  have w3: "state w3 = state w2'" "disk w3 = disk w2'"
    using plan_task_world(1,2) [of ev "attach_input u a0" w2'] by (simp_all add: pt)
  have g: "\<And>plan. state (snd (generate_output ev plan w3)) = state w2'"
          "\<And>plan. disk (snd (generate_output ev plan w3)) = disk w2'"
    by (simp_all add: generate_output_world w3)
  have r: "run ev u w =
             (case r of
                Inl e \<Rightarrow> (Inl e, w2')
              | Inr x \<Rightarrow>
                  (case r3 of Inl e \<Rightarrow> (Inl e, w3) | Inr plan \<Rightarrow> generate_output ev plan w3))"
    by (simp add: run_def iu s up pt split: sum.splits)
  show "state (snd (run ev u w)) = state w2"
    by (simp add: r w2 w3 g split: sum.splits)
  show "disk (snd (run ev u w)) = disk w2"
    by (simp add: r w2 w3 g split: sum.splits)
  show "fst (update_state ev a (snd (input_understanding ev u w))) = Inl e \<Longrightarrow>
           run ev u w = (Inl e, w2)"
    unfolding a w2 by (simp add: r iu up)
  show "fst (update_state ev a (snd (input_understanding ev u w))) = Inr x \<Longrightarrow>
           run ev u w =
             (case plan_task ev a w2 of
                (Inl e, w3) \<Rightarrow> (Inl e, w3)
              | (Inr plan, w3) \<Rightarrow> generate_output ev plan w3)"
    unfolding a w2 by (simp add: r iu up pt split: sum.splits)
qed

text \<open>
  A request whose analysis is not a dict raises before \<open>update_state\<close>; the state and
  the file are as they were.
\<close>

lemma run_not_obj:
  assumes "\<not> is_obj (fst (input_understanding ev u w))"
  shows "run ev u w = (Inl TypeError, snd (input_understanding ev u w))"
proof -
  obtain a0 w1 where iu: "input_understanding ev u w = (a0, w1)"
    by (cases "input_understanding ev u w")
  have "py_setitem a0 (lit ''user_input'') (JStr u) = Inl TypeError"
    using assms by (cases a0) (auto simp: iu)
  then show ?thesis by (simp add: run_def iu)
qed

text \<open>
  Every request, completed or not, leaves a state whose two lists are lists, when it
  found one.
\<close>

lemma run_ready:
  assumes "ready (state w)"
  shows "ready (state (snd (run ev u w)))"
proof (cases "is_obj (fst (input_understanding ev u w))")
  case False
  obtain a0 w1 where iu: "input_understanding ev u w = (a0, w1)"
    by (cases "input_understanding ev u w")
  show ?thesis
    using assms run_not_obj [OF False] input_understanding_world(1) [OF iu] by (simp add: iu)
next
  case True
  obtain a0 w1 where iu: "input_understanding ev u w = (a0, w1)"
    by (cases "input_understanding ev u w")
  have rdy: "ready (state w1)" using assms input_understanding_world(1) [OF iu] by simp
  have obj: "is_obj (attach_input u a0)" using True by (simp add: iu is_obj_attach_input)
  show ?thesis
    using run_after_update(1) [OF True] update_state_memory(3) [OF rdy obj, where ev = ev]
    by (simp add: iu)
qed


subsection \<open>A session\<close>

lemma upt_add_Suc: "[n ..< n + Suc k] = n # [Suc n ..< Suc n + k]"
  by (simp add: upt_conv_Cons del: upt_Suc)

lemma run_all_history:
  assumes "run_all ev us w = (rs, w')" and "list_all (\<lambda>r. \<not> isl r) rs"
    and "history_of (state w) = last3 hs0"
  shows "\<exists>ts. length ts = length us
           \<and> history_of (state w') = last3 (hs0 @ ts)
           \<and> map (\<lambda>h. lookup h (lit ''user_input'')) ts = map (\<lambda>u. Some (JStr u)) us
           \<and> map (\<lambda>h. lookup h (lit ''timestamp'')) ts
               = map (\<lambda>k. Some (JStr (now ev k))) [ticks w ..< ticks w + length us]"
  using assms
proof (induction us arbitrary: w w' rs hs0)
  case Nil
  then show ?case by simp
next
  case (Cons u us)
  obtain r w1 where r: "run ev u w = (r, w1)" by (cases "run ev u w")
  obtain rs' w2 where rs': "run_all ev us w1 = (rs', w2)" by (cases "run_all ev us w1")
  have eq: "rs = r # rs'" "w' = w2" using Cons.prems(1) by (simp_all add: r rs')
  then obtain out where out: "r = Inr out" using Cons.prems(2) by (cases r) auto
  define t where "t = turn_of (now ev (ticks w)) (attach_input u (fst (input_understanding ev u w)))"
  note rw = run_Inr_world [OF r [unfolded out]]
  have h1: "history_of (state w1) = last3 ((hs0 @ [t]))"
    using rw(2) by (simp add: Cons.prems(3) last3_snoc t_def)
  have tf: "lookup t (lit ''user_input'') = Some (JStr u)"
           "lookup t (lit ''timestamp'') = Some (JStr (now ev (ticks w)))"
    using rw(1) by (simp_all add: t_def turn_of_attach_input)
  have all': "list_all (\<lambda>r. \<not> isl r) rs'" using Cons.prems(2) eq by simp
  from Cons.IH [OF rs' all' h1] obtain ts where ts:
    "length ts = length us" "history_of (state w2) = last3 ((hs0 @ [t]) @ ts)"
    "map (\<lambda>h. lookup h (lit ''user_input'')) ts = map (\<lambda>u. Some (JStr u)) us"
    "map (\<lambda>h. lookup h (lit ''timestamp'')) ts
       = map (\<lambda>k. Some (JStr (now ev k))) [ticks w1 ..< ticks w1 + length us]"
    by auto
  have len: "length (u # us) = Suc (length us)" by simp
  have up: "[ticks w ..< ticks w + length (u # us)]
              = ticks w # [ticks w1 ..< ticks w1 + length us]"
    unfolding len rw(3) by (rule upt_add_Suc)
  have c1: "length (t # ts) = length (u # us)" using ts(1) by simp
  have c2: "history_of (state w') = last3 (hs0 @ (t # ts))" using ts(2) eq by simp
  have c3: "map (\<lambda>h. lookup h (lit ''user_input'')) (t # ts) = map (\<lambda>u. Some (JStr u)) (u # us)"
    using ts(3) tf(1) by simp
  have c4: "map (\<lambda>h. lookup h (lit ''timestamp'')) (t # ts)
              = map (\<lambda>k. Some (JStr (now ev k))) [ticks w ..< ticks w + length (u # us)]"
    unfolding up using ts(4) tf(2) by simp
  show ?case using c1 c2 c3 c4 by blast
qed

lemma agent_init_fresh: "store ev 0 = Written \<Longrightarrow> agent_init ev Absent = Inr fresh"
  by (simp add: agent_init_def load_state_def save_state_def fresh_def)

lemma ready_fresh: "ready (state fresh)"
  by (simp add: fresh_def default_state_def ready_def)

lemma history_of_fresh: "history_of (state fresh) = []" and niches_of_fresh: "niches_of (state fresh) = []"
  by (simp_all add: fresh_def default_state_def history_of_def niches_of_def)

subsection \<open>A request on a well-formed state\<close>

lemma wf_state_ready: "wf_state st \<Longrightarrow> ready st"
  by (auto simp: wf_state_def ready_def split: option.splits json.splits)

lemma list_all_is_str: "list_all is_str xs \<Longrightarrow> xs = map JStr (map the_str xs)"
  by (induction xs) (auto simp: is_str_iff the_str_def)

lemma merge_niche_strings:
  "merge_niche (map JStr ss) (JStr s) = map JStr (if s \<noteq> [] \<and> s \<notin> set ss then ss @ [s] else ss)"
  by (auto simp: merge_niche_def list_ex_iff)

lemma plan_prompt_wf:
  assumes "is_obj a" and "map_of kvs (lit ''niches'') = Some (JArr (map JStr ss))"
    and "map_of kvs (lit ''history'') = Some (JArr hs)" and "list_all wf_turn hs"
  shows "plan_prompt a (JObj kvs) =
           Inr (PlanPrompt (get_or a (lit ''topic'') (JStr (lit ''general'')))
                           (get_or a (lit ''tone'') (JStr (lit ''neutral'')))
                           (get_or a (lit ''constraints'') (JStr (lit ''none'')))
                           (intercalate (lit '', '') ss)
                           (map turn_topic hs)
                           (py_eq (get_or a (lit ''tone'') JNull) (JStr (lit ''casual''))))"
proof -
  obtain akvs where a: "a = JObj akvs" using assms(1) by (auto simp: is_obj_iff)
  show ?thesis
    using assms(2,3) history_topics_wf [OF assms(4)]
    by (simp add: plan_prompt_def a py_join_def strs_of_strings get_or_def split: option.splits)
qed

lemma generate_output_wf:
  assumes "is_obj (state w)"
    and "case lookup (state w) (lit ''user_preferences'') of None \<Rightarrow> True | Some p \<Rightarrow> is_obj p"
  shows "generate_output ev plan w =
           (Inr (gen ev (length (sent w)) (RenderPrompt plan (pref_tone (state w)))),
            w\<lparr>sent := sent w @ [RenderPrompt plan (pref_tone (state w))]\<rparr>)"
  using assms
  by (auto simp: generate_output_def generate_content_def pref_tone_def is_obj_iff
           split: option.splits)

lemma run_wf:
  assumes wf: "wf_state (state w)" and int: "is_intent (fst (input_understanding ev u w))"
    and wr: "store ev (writes w) = Written"
  shows "\<exists>out w'. run ev u w = (Inr out, w') \<and> wf_state (state w')
           \<and> writes w' = Suc (writes w)"
proof -
  obtain a0 w1 where iu: "input_understanding ev u w = (a0, w1)"
    by (cases "input_understanding ev u w")
  note w1 = input_understanding_world [OF iu]
  have obj0: "is_obj a0" using int by (simp add: iu is_intent_def)
  define a where "a = attach_input u a0"
  have obj: "is_obj a" by (simp add: a_def obj0 is_obj_attach_input)
  have "topic_of a = topic_of a0"
    by (simp add: a_def topic_of_def lookup_attach_input obj0)
  then obtain s where s: "topic_of a = JStr s"
    using int by (auto simp: iu is_intent_def topic_of_def is_str_iff split: option.splits)
  have rdy: "ready (state w1)" using wf by (simp add: w1 wf_state_ready)
  obtain kvs' where
    up0: "update_state ev a w1 = save_state ev (w1\<lparr>state := JObj kvs', ticks := Suc (ticks w1)\<rparr>)"
    and n': "map_of kvs' (lit ''niches'') = Some (JArr (merge_niche (niches_of (state w1)) (topic_of a)))"
    and h': "map_of kvs' (lit ''history'')
               = Some (JArr (last3 (history_of (state w1) @ [turn_of (now ev (ticks w1)) a])))"
    and o': "\<forall>k. k \<noteq> lit ''niches'' \<and> k \<noteq> lit ''history''
                \<longrightarrow> map_of kvs' k = lookup (state w1) k"
    using update_state_ready [OF rdy obj, of ev] by blast
  define w2 where
    "w2 = w1\<lparr>state := JObj kvs', ticks := Suc (ticks w1), disk := Dumped (JObj kvs'),
             writes := Suc (writes w1)\<rparr>"
  have up: "update_state ev a w1 = (Inr (), w2)"
    using wr by (simp add: up0 save_state_def w1 w2_def)
  have strs: "list_all is_str (niches_of (state w1))"
    using wf by (auto simp: w1 wf_state_def niches_of_def split: option.splits json.splits)
  define ss where "ss = map the_str (niches_of (state w1))"
  define ss' where "ss' = (if s \<noteq> [] \<and> s \<notin> set ss then ss @ [s] else ss)"
  have n'': "map_of kvs' (lit ''niches'') = Some (JArr (map JStr ss'))"
    using n' list_all_is_str [OF strs] merge_niche_strings [of ss s]
    by (simp add: s ss_def ss'_def)
  have turns: "list_all wf_turn (history_of (state w1))"
    using wf by (auto simp: w1 wf_state_def history_of_def split: option.splits json.splits)
  have "wf_turn (turn_of (now ev (ticks w1)) a)"
    using obj by (simp add: wf_turn_def turn_of_def)
  then have turns': "list_all wf_turn (last3 (history_of (state w1) @ [turn_of (now ev (ticks w1)) a]))"
    using turns by (intro list_all_last3) simp
  note pp = plan_prompt_wf [OF obj n'' h' turns']
  obtain p where p: "plan_prompt a (JObj kvs') = Inr p" using pp by blast
  define w3 where "w3 = w2\<lparr>sent := sent w2 @ [p]\<rparr>"
  have pt: "plan_task ev a w2 = (Inr (gen ev (length (sent w2)) p), w3)"
    unfolding plan_task_Inr_iff using p by (simp add: w2_def w3_def)
  have prefs: "lookup (state w3) (lit ''user_preferences'') = lookup (state w) (lit ''user_preferences'')"
    using o' by (simp add: w3_def w2_def w1)
  have "case lookup (state w3) (lit ''user_preferences'') of None \<Rightarrow> True | Some p \<Rightarrow> is_obj p"
    unfolding prefs using wf by (simp add: wf_state_def)
  moreover have "is_obj (state w3)" by (simp add: w3_def w2_def)
  ultimately obtain out w' where go: "generate_output ev (gen ev (length (sent w2)) p) w3 = (Inr out, w')"
    and st': "state w' = state w3"
    using generate_output_wf [of w3 ev "gen ev (length (sent w2)) p"] by simp
  have "run ev u w = (Inr out, w')"
    unfolding run_Inr_iff using iu obj0 up pt go by (auto simp: a_def)
  moreover have "wf_state (state w')"
    using n'' h' turns' prefs wf
    by (simp add: st' w3_def w2_def wf_state_def list_all_iff)
  moreover have "writes w' = Suc (writes w)"
  proof -
    have "writes w' = writes w3"
      using generate_output_world(4) [of ev "gen ev (length (sent w2)) p" w3]
      unfolding go by simp
    then show ?thesis by (simp add: w3_def w2_def w1)
  qed
  ultimately show ?thesis by blast
qed

subsection \<open>The fallback intent\<close>

lemma fallback_is_intent: "is_intent fallback_intent"
  by (simp add: is_intent_def fallback_intent_def)

lemma attach_fallback:
  "attach_input u fallback_intent =
     JObj [(lit ''topic'', JStr (lit ''general'')), (lit ''tone'', JStr (lit ''neutral'')),
           (lit ''constraints'', JStr []), (lit ''user_input'', JStr u)]"
  by (simp add: attach_input_def fallback_intent_def)

lemma input_understanding_fallback:
  "intent_reply ev u w = Inl e \<Longrightarrow> fst (input_understanding ev u w) = fallback_intent"
  by (simp add: input_understanding_eq)

lemma plan_prompt_wf_state:
  assumes "wf_state st" and "is_obj a"
  shows "plan_prompt a st =
           Inr (PlanPrompt (get_or a (lit ''topic'') (JStr (lit ''general'')))
                           (get_or a (lit ''tone'') (JStr (lit ''neutral'')))
                           (get_or a (lit ''constraints'') (JStr (lit ''none'')))
                           (intercalate (lit '', '') (map the_str (niches_of st)))
                           (map turn_topic (history_of st))
                           (py_eq (get_or a (lit ''tone'') JNull) (JStr (lit ''casual''))))"
proof -
  obtain kvs akvs where st: "st = JObj kvs" and a: "a = JObj akvs"
    using assms by (auto simp: wf_state_def is_obj_iff)
  have n: "py_get st (lit ''niches'') (JArr []) = Inr (JArr (niches_of st))"
    using assms(1) by (auto simp: st wf_state_def niches_of_def split: option.splits json.splits)
  have h: "py_get st (lit ''history'') (JArr []) = Inr (JArr (history_of st))"
    using assms(1) by (auto simp: st wf_state_def history_of_def split: option.splits json.splits)
  have "list_all is_str (niches_of st)"
    using assms(1) by (auto simp: st wf_state_def niches_of_def split: option.splits json.splits)
  then have j: "strs_of (niches_of st) = Inr (map the_str (niches_of st))"
    using list_all_is_str strs_of_strings by metis
  have "list_all wf_turn (history_of st)"
    using assms(1) by (auto simp: st wf_state_def history_of_def split: option.splits json.splits)
  then have t: "history_topics (history_of st) = Inr (map turn_topic (history_of st))"
    by (rule history_topics_wf)
  show ?thesis
    by (simp add: plan_prompt_def a n h j t py_join_def get_or_def split: option.splits)
qed

lemma plan_prompt_strings:
  assumes "plan_prompt a (JObj kvs) = Inr p" and "map_of kvs (lit ''niches'') = Some (JArr ns)"
  shows "list_all is_str ns"
proof -
  obtain ss where "strs_of ns = Inr ss"
    using assms by (auto simp: plan_prompt_def py_join_def split: sum.splits)
  then show ?thesis using strs_of_Inr by (fastforce simp: list_all_iff)
qed



subsection \<open>Replies that are not JSON\<close>

lemma py_strip_head:
  "\<not> py_isspace c \<Longrightarrow> py_strip (c # s) = c # rev (dropWhile py_isspace (rev s))"
  by (simp add: py_strip_def dropWhile_append)

lemma scan_once_capital_A: "scan_once md d (65 # r) = Inl JSONDecodeError"
  by (simp add: scan_once.simps match_number_def is_digit_def lit_Cons lit_Nil)

lemma sentinel_not_json:
  assumes "is_prefix (lit ''API Error: '') s"
  shows "json_loads md d (py_strip s) = Inl JSONDecodeError"
proof -
  obtain s' where "s = 65 # s'"
    using assms by (cases s) (auto simp: lit_Cons)
  moreover have "\<not> py_isspace 65" by (simp add: py_isspace_def)
  ultimately obtain r where "py_strip s = 65 # r"
    using py_strip_head by blast
  then show ?thesis
    by (simp add: json_loads_def skip_ws_def is_ws_def scan_once_capital_A)
qed

lemma py_eq_JStr: "py_eq x (JStr s) \<longleftrightarrow> x = JStr s"
  by (cases x) (auto split: json.splits)

lemma py_same_JStr: "py_same x (JStr s) \<longleftrightarrow> x = JStr s"
  by (simp add: py_eq_JStr)

lemma merge_niche_member_str:
  assumes "is_str t" and "py_truthy t"
  shows "t \<in> set (merge_niche ns t)"
  using assms by (auto simp: merge_niche_def list_ex_iff is_str_iff py_eq_JStr)


lemma turn_topic_turn_of: "turn_topic (turn_of ts a) = topic_of a"
  by (simp add: turn_topic_def turn_of_def)

lemma wf_state_fresh: "wf_state (state fresh)"
  by (simp add: fresh_def default_state_def wf_state_def)

lemma wf_state_niches: "wf_state st \<Longrightarrow> list_all is_str (niches_of st)"
  by (auto simp: wf_state_def niches_of_def split: option.splits json.splits)

subsection \<open>Intents folded into the state\<close>

lemma update_all_niches:
  assumes "ready (state w)" and "list_all is_obj as"
  shows "ready (state (update_all ev as w))
       \<and> niches_of (state (update_all ev as w))
           = foldl merge_niche (niches_of (state w)) (map topic_of as)"
  using assms
proof (induction as arbitrary: w)
  case Nil
  then show ?case by simp
next
  case (Cons a as)
  then have obj: "is_obj a" and rest: "list_all is_obj as" by simp_all
  note m = update_state_memory [OF Cons.prems(1) obj, where ev = ev]
  show ?case
    using Cons.IH [OF m(3) rest] by (simp add: m(1))
qed

lemma foldl_merge_strings:
  assumes "list_all is_intent as"
  shows "foldl merge_niche (map JStr ss) (map topic_of as)
           = map JStr (first_occurrences ss
                (filter (\<lambda>t. t \<noteq> []) (map (\<lambda>a. the_str (topic_of a)) as)))"
  using assms
proof (induction as arbitrary: ss)
  case Nil
  then show ?case by simp
next
  case (Cons a as)
  then obtain s where s: "topic_of a = JStr s"
    by (auto simp: is_intent_def topic_of_def is_str_iff split: option.splits)
  have rest: "list_all is_intent as" using Cons.prems by simp
  show ?case
    using Cons.IH [OF rest, of "if s \<noteq> [] \<and> s \<notin> set ss then ss @ [s] else ss"]
    by (simp add: s the_str_def merge_niche_strings)
qed

lemma set_first_occurrences: "set (first_occurrences seen xs) = set seen \<union> set xs"
  by (induction xs arbitrary: seen) auto

lemma distinct_first_occurrences: "distinct seen \<Longrightarrow> distinct (first_occurrences seen xs)"
  by (induction xs arbitrary: seen) auto

subsection \<open>Sessions with a model that answers in prose\<close>

lemma lit_eq_Nil_iff [simp]: "lit s = [] \<longleftrightarrow> s = []" and Nil_eq_lit_iff [simp]: "[] = lit s \<longleftrightarrow> s = []"
  by (auto simp: lit_def)

lemma prose_reply_not_json:
  "json_loads md d (py_strip (gen prose_env k p)) = Inl JSONDecodeError"
  by (simp add: prose_env_def quiet_env_def py_strip_def py_isspace_def decode_simps)

lemma store_quiet [simp]:
  "store (quiet_env r) k = Written" "store prose_env k = Written"
  "store failing_env k = Written" "store number_env k = Written"
  "store fashion_env k = Written" "store five_env k = Written" "store tag_env k = Written"
  by (simp_all add: quiet_env_def prose_env_def failing_env_def number_env_def fashion_env_def
                    five_env_def tag_env_def)

lemma run_all_completes:
  assumes "wf_state (state w)"
    and "\<forall>k p. json_loads (max_digits ev) (reply_depth ev) (py_strip (gen ev k p))
                 = Inl JSONDecodeError"
    and "\<forall>k. store ev k = Written"
  shows "list_all (\<lambda>r. \<not> isl r) (fst (run_all ev us w))"
  using assms(1)
proof (induction us arbitrary: w)
  case Nil
  then show ?case by simp
next
  case (Cons u us)
  have "is_intent (fst (input_understanding ev u w))"
    using assms(2) by (simp add: input_understanding_fallback fallback_is_intent)
  then obtain out w' where r: "run ev u w = (Inr out, w')" and wf': "wf_state (state w')"
    using run_wf [OF Cons.prems] assms(3) by blast
  show ?case
    using Cons.IH [OF wf'] by (auto simp: r split: prod.splits)
qed

subsection \<open>A model that answers with the intent asked for\<close>

lemma fashion_reply:
  "json_loads (max_digits fashion_env) (reply_depth fashion_env)
     (py_strip (gen fashion_env k (IntentPrompt u))) = Inr fashion_intent"
  by (simp add: fashion_env_def quiet_env_def fashion_intent_def py_strip_def py_isspace_def
                decode_simps)

lemma fashion_understood:
  "fst (input_understanding fashion_env u w) = fashion_intent"
  by (simp add: input_understanding_eq fashion_reply)

lemma fashion_run_completes:
  "wf_state (state w) \<Longrightarrow> \<exists>out w'. run fashion_env u w = (Inr out, w')"
  using run_wf [of w fashion_env u]
  by (auto simp: fashion_understood is_intent_def fashion_intent_def)

subsection \<open>A topic that is not a string\<close>

lemma strs_of_not_strings: "\<not> list_all is_str xs \<Longrightarrow> strs_of xs = Inl TypeError"
  by (induction xs) (auto split: json.splits sum.splits)

lemma merge_niche_not_string:
  assumes "list_all is_str ns" and "py_truthy t" and "\<not> is_str t"
  shows "merge_niche ns t = ns @ [t]"
proof -
  have "\<not> list_ex (\<lambda>x. py_same x t) ns"
    using assms(1,3) by (auto simp: list_ex_iff list_all_iff is_str_iff)
  then show ?thesis using assms(2) by (simp add: merge_niche_def)
qed

lemma merge_niche_keeps: "set ns \<subseteq> set (merge_niche ns t)"
  by (auto simp: merge_niche_def)

lemma plan_prompt_not_strings:
  assumes "is_obj a" and "map_of kvs (lit ''niches'') = Some (JArr ns)"
    and "map_of kvs (lit ''history'') = Some (JArr hs)" and "list_all wf_turn hs"
    and "\<not> list_all is_str ns"
  shows "plan_prompt a (JObj kvs) = Inl TypeError"
proof -
  obtain akvs where a: "a = JObj akvs" using assms(1) by (auto simp: is_obj_iff)
  show ?thesis
    using assms(2,3) history_topics_wf [OF assms(4)] strs_of_not_strings [OF assms(5)]
    by (simp add: plan_prompt_def a py_join_def split: option.splits)
qed

text \<open>
  A reply that is an object with a non-empty topic that is not a string (a number, a
  list) makes \<open>run\<close> raise in \<open>plan_task\<close>, after the topic has been appended to the
  niches and the state written to the file.
\<close>

lemma run_raises_on_non_string_topic:
  assumes wf: "wf_state (state w)"
    and reply: "intent_reply ev u w = Inr a0"
    and obj0: "is_obj a0" and tr: "py_truthy (topic_of a0)" and ns: "\<not> is_str (topic_of a0)"
    and wr: "store ev (writes w) = Written"
  shows "fst (run ev u w) = Inl TypeError"
    and "topic_of a0 \<in> set (niches_of (state (snd (run ev u w))))"
    and "disk (snd (run ev u w)) = Dumped (state (snd (run ev u w)))"
    and "ready (state (snd (run ev u w)))"
proof -
  define w1 where "w1 = w\<lparr>sent := sent w @ [IntentPrompt u]\<rparr>"
  have iu: "input_understanding ev u w = (a0, w1)"
    using reply by (simp add: input_understanding_eq w1_def)
  define a where "a = attach_input u a0"
  have obj: "is_obj a" by (simp add: a_def obj0 is_obj_attach_input)
  have s: "py_setitem a0 (lit ''user_input'') (JStr u) = Inr a"
    by (simp add: attach_input_setitem obj0 a_def)
  have t: "topic_of a = topic_of a0"
    by (simp add: a_def topic_of_def lookup_attach_input obj0)
  have rdy: "ready (state w1)" using wf by (simp add: w1_def wf_state_ready)
  obtain kvs' where
    up0: "update_state ev a w1 = save_state ev (w1\<lparr>state := JObj kvs', ticks := Suc (ticks w1)\<rparr>)"
    and n': "map_of kvs' (lit ''niches'') = Some (JArr (merge_niche (niches_of (state w1)) (topic_of a)))"
    and h': "map_of kvs' (lit ''history'')
               = Some (JArr (last3 (history_of (state w1) @ [turn_of (now ev (ticks w1)) a])))"
    using update_state_ready [OF rdy obj, of ev] by blast
  define w2 where
    "w2 = w1\<lparr>state := JObj kvs', ticks := Suc (ticks w1), disk := Dumped (JObj kvs'),
             writes := Suc (writes w1)\<rparr>"
  have "writes w1 = writes w" by (simp add: w1_def)
  then have up: "update_state ev a w1 = (Inr (), w2)"
    unfolding up0 using wr by (simp add: save_state_def w2_def)
  have m: "merge_niche (niches_of (state w1)) (topic_of a) = niches_of (state w1) @ [topic_of a0]"
    using merge_niche_not_string [OF wf_state_niches [OF wf] tr ns] by (simp add: w1_def t)
  have bad: "\<not> list_all is_str (merge_niche (niches_of (state w1)) (topic_of a))"
    using ns by (simp add: m)
  have turns: "list_all wf_turn (history_of (state w1))"
    using wf by (auto simp: w1_def wf_state_def history_of_def split: option.splits json.splits)
  have "wf_turn (turn_of (now ev (ticks w1)) a)"
    using obj by (simp add: wf_turn_def turn_of_def)
  then have turns': "list_all wf_turn (last3 (history_of (state w1) @ [turn_of (now ev (ticks w1)) a]))"
    using turns by (intro list_all_last3) simp
  have "plan_prompt a (JObj kvs') = Inl TypeError"
    using plan_prompt_not_strings [OF obj n' h' turns' bad] .
  then have pt: "plan_task ev a w2 = (Inl TypeError, w2)"
    by (simp add: plan_task_def w2_def)
  have r: "run ev u w = (Inl TypeError, w2)"
    by (simp add: run_def iu s up pt)
  show "fst (run ev u w) = Inl TypeError" by (simp add: r)
  have "niches_of (state w2) = merge_niche (niches_of (state w1)) (topic_of a)"
    using n' by (simp add: w2_def niches_of_def)
  then show "topic_of a0 \<in> set (niches_of (state (snd (run ev u w))))"
    by (simp add: r m)
  show "disk (snd (run ev u w)) = Dumped (state (snd (run ev u w)))"
    by (simp add: r w2_def)
  show "ready (state (snd (run ev u w)))"
    using n' h' by (simp add: r w2_def ready_def)
qed

text \<open>Once a niche is not a string, no request completes any more.\<close>

lemma run_raises_on_non_string_niche:
  assumes "ready (state w)" and "\<not> list_all is_str (niches_of (state w))"
  shows "isl (fst (run ev u w))"
proof (rule ccontr)
  assume "\<not> isl (fst (run ev u w))"
  moreover obtain r0 w' where "run ev u w = (r0, w')"
    by (cases "run ev u w")
  ultimately obtain out where r: "run ev u w = (Inr out, w')"
    by (cases r0) auto
  define a where "a = attach_input u (fst (input_understanding ev u w))"
  note rw = run_Inr_world [OF r, folded a_def]
  obtain a0 w1 where iu: "input_understanding ev u w = (a0, w1)"
    by (cases "input_understanding ev u w")
  note w1 = input_understanding_world [OF iu]
  have obj: "is_obj a" using rw(1) by (simp add: a_def is_obj_attach_input)
  have rdy: "ready (state w1)" using assms(1) by (simp add: w1)
  obtain kvs' where
    up: "update_state ev a w1 = save_state ev (w1\<lparr>state := JObj kvs', ticks := Suc (ticks w1)\<rparr>)"
    and n': "map_of kvs' (lit ''niches'') = Some (JArr (merge_niche (niches_of (state w1)) (topic_of a)))"
    using update_state_ready [OF rdy obj, of ev] by blast
  have "state (snd (update_state ev a w1)) = JObj kvs'"
    by (simp add: up save_state_world)
  then have "state (w'\<lparr>sent := sent w @ [IntentPrompt u]\<rparr>) = JObj kvs'"
    using rw(7) by (simp add: iu)
  then have st': "state w' = JObj kvs'"
    by simp
  obtain p where p: "plan_prompt a (state w') = Inr p" using rw(6) by blast
  have "list_all is_str (merge_niche (niches_of (state w1)) (topic_of a))"
    using plan_prompt_strings [OF p [unfolded st'] n'] .
  then have "list_all is_str (niches_of (state w))"
    using merge_niche_keeps [of "niches_of (state w1)" "topic_of a"]
    by (auto simp: list_all_iff w1)
  then show False using assms(2) by simp
qed

text \<open>
  The scenario: the model answers the first request with the topic 5; that request
  raises, 5 is a niche from then on, and the next request raises as well, although its
  reply is handled by the fallback.
\<close>

lemma number_topic_breaks_later_requests:
  "fst (run five_env request fresh) = Inl TypeError
   \<and> JInt 5 \<in> set (niches_of (state (snd (run five_env request fresh))))
   \<and> disk (snd (run five_env request fresh)) = Dumped (state (snd (run five_env request fresh)))
   \<and> isl (fst (run prose_env request (snd (run five_env request fresh))))"
proof -
  define a0 where "a0 = JObj [(lit ''topic'', JInt 5), (lit ''tone'', JStr (lit ''fun''))]"
  have reply: "intent_reply five_env request fresh = Inr a0"
    by (simp add: five_env_def quiet_env_def a0_def py_strip_def py_isspace_def decode_simps)
  have t: "topic_of a0 = JInt 5" by (simp add: a0_def topic_of_def)
  have obj: "is_obj a0" by (simp add: a0_def)
  have tr: "py_truthy (topic_of a0)" and ns: "\<not> is_str (topic_of a0)" by (simp_all add: t)
  have wr: "store five_env (writes fresh) = Written" by simp
  note bad = run_raises_on_non_string_topic [OF wf_state_fresh reply obj tr ns wr, unfolded t]
  have "\<not> is_str (JInt 5)" by simp
  then have "\<not> list_all is_str (niches_of (state (snd (run five_env request fresh))))"
    using bad(2) unfolding list_all_iff by blast
  then have "isl (fst (run prose_env request (snd (run five_env request fresh))))"
    using run_raises_on_non_string_niche [OF bad(4)] by blast
  then show ?thesis using bad by blast
qed

text \<open>
  On a state with a niche that is not a string no request gets past \<open>plan_task\<close>:
  \<open>run\<close> raises, and the intent prompt is the only prompt sent.
\<close>

lemma plan_prompt_bad_niche:
  assumes "ready st" and "\<not> list_all is_str (niches_of st)"
  shows "\<exists>e. plan_prompt a st = Inl e"
proof (rule ccontr)
  assume "\<not> (\<exists>e. plan_prompt a st = Inl e)"
  then obtain p where p: "plan_prompt a st = Inr p"
    by (cases "plan_prompt a st") auto
  obtain kvs where st: "st = JObj kvs"
    using assms(1) by (auto simp: ready_def is_obj_iff)
  have "niches_of st \<noteq> []" using assms(2) by auto
  then have "map_of kvs (lit ''niches'') = Some (JArr (niches_of st))"
    by (auto simp: st niches_of_def split: option.splits json.splits)
  then have "list_all is_str (niches_of st)"
    using plan_prompt_strings [OF p [unfolded st]] by simp
  then show False using assms(2) by simp
qed

lemma update_state_sent:
  assumes "ready (state w)" and "is_obj a"
  shows "sent (snd (update_state ev a w)) = sent w"
proof -
  have "sent (snd (update_state ev a w))
          = sent (snd (save_state ev (w\<lparr>state := state (snd (update_state ev a w)),
                                          ticks := Suc (ticks w)\<rparr>)))"
    using update_state_memory(5) [OF assms, where ev = ev] by simp
  then show ?thesis by (simp add: save_state_world)
qed

lemma run_bad_niche:
  assumes "ready (state w)" and "\<not> list_all is_str (niches_of (state w))"
  shows "\<exists>e w'. run ev u w = (Inl e, w') \<and> sent w' = sent w @ [IntentPrompt u]"
proof -
  obtain a0 w1 where iu: "input_understanding ev u w = (a0, w1)"
    by (cases "input_understanding ev u w")
  note w1 = input_understanding_world [OF iu]
  show ?thesis
  proof (cases "is_obj a0")
    case False
    then show ?thesis using run_not_obj [of ev u w] w1(4) by (simp add: iu)
  next
    case True
    define a where "a = attach_input u a0"
    define w2 where "w2 = snd (update_state ev a w1)"
    have obj: "is_obj a" using True by (simp add: a_def is_obj_attach_input)
    have rdy: "ready (state w1)" using assms(1) by (simp add: w1)
    note m = update_state_memory [OF rdy obj, where ev = ev, folded w2_def]
    have s2: "sent w2 = sent w @ [IntentPrompt u]"
      using update_state_sent [OF rdy obj, of ev] by (simp add: w2_def w1)
    have "\<not> list_all is_str (niches_of (state w2))"
      using assms(2) merge_niche_keeps [of "niches_of (state w1)" "topic_of a"]
      by (auto simp: m(1) w1 list_all_iff)
    then obtain e where pp: "plan_prompt a (state w2) = Inl e"
      using plan_prompt_bad_niche [OF m(3)] by blast
    have obj': "is_obj (fst (input_understanding ev u w))" using True by (simp add: iu)
    show ?thesis
    proof (cases "fst (update_state ev a w1)")
      case (Inl e')
      then have "run ev u w = (Inl e', w2)"
        using run_after_update(3) [OF obj', where e = e'] by (simp add: iu a_def w2_def)
      then show ?thesis using s2 by blast
    next
      case (Inr x)
      then have "run ev u w =
                   (case plan_task ev a w2 of
                      (Inl e, w3) \<Rightarrow> (Inl e, w3)
                    | (Inr plan, w3) \<Rightarrow> generate_output ev plan w3)"
        using run_after_update(4) [OF obj', where x = x] by (simp add: iu a_def w2_def)
      moreover have "plan_task ev a w2 = (Inl e, w2)"
        by (simp add: plan_task_def pp)
      ultimately have "run ev u w = (Inl e, w2)" by simp
      then show ?thesis using s2 by blast
    qed
  qed
qed

subsection \<open>The states of a session\<close>

text \<open>
  From a first start on, every request, completed or not, leaves a state that is
  well-formed but for the niches; and a request completes on such a state only if the
  niches are strings, that is, if the state is well-formed.
\<close>

lemma wf_state_iff: "wf_state st \<longleftrightarrow> typed_state st \<and> list_all is_str (niches_of st)"
  by (auto simp: wf_state_def typed_state_def ready_def niches_of_def history_of_def
           split: option.splits json.splits)

lemma typed_state_fresh: "typed_state (state fresh)"
  using wf_state_fresh by (simp add: wf_state_iff)

lemma run_typed:
  assumes "typed_state (state w)"
  shows "typed_state (state (snd (run ev u w)))"
proof (cases "is_obj (fst (input_understanding ev u w))")
  case False
  obtain a0 w1 where iu: "input_understanding ev u w = (a0, w1)"
    by (cases "input_understanding ev u w")
  show ?thesis
    using assms run_not_obj [OF False] input_understanding_world(1) [OF iu] by (simp add: iu)
next
  case True
  obtain a0 w1 where iu: "input_understanding ev u w = (a0, w1)"
    by (cases "input_understanding ev u w")
  note w1 = input_understanding_world [OF iu]
  have rdy: "ready (state w1)" using assms by (simp add: w1 typed_state_def)
  have obj: "is_obj (attach_input u a0)" using True by (simp add: iu is_obj_attach_input)
  note m = update_state_memory [OF rdy obj, where ev = ev]
  have st: "state (snd (run ev u w)) = state (snd (update_state ev (attach_input u a0) w1))"
    using run_after_update(1) [OF True] by (simp add: iu)
  have "wf_turn (turn_of (now ev (ticks w1)) (attach_input u a0))"
    using obj by (simp add: wf_turn_def turn_of_def)
  moreover have "list_all wf_turn (history_of (state w1))"
    using assms by (simp add: w1 typed_state_def)
  ultimately have h: "list_all wf_turn (history_of (state (snd (run ev u w))))"
    unfolding st m(2) by (intro list_all_last3) simp
  have "lookup (state (snd (run ev u w))) (lit ''user_preferences'')
          = lookup (state w) (lit ''user_preferences'')"
    unfolding st using m(4) [of "lit ''user_preferences''"] by (simp add: w1)
  then show ?thesis
    using h m(3) assms by (simp add: typed_state_def st)
qed

lemma completed_run_wf:
  assumes "typed_state (state w)" and "run ev u w = (Inr out, w')"
  shows "wf_state (state w)"
proof -
  have "ready (state w)" using assms(1) by (simp add: typed_state_def)
  then have "list_all is_str (niches_of (state w))"
    using run_raises_on_non_string_niche [of w ev u] assms(2) by auto
  then show ?thesis using assms(1) by (simp add: wf_state_iff)
qed

subsection \<open>A reply that does not parse, on any state whose two lists are lists\<close>

lemma fallback_run:
  assumes "ready (state w)" and "intent_reply ev u w = Inl e"
  defines "a \<equiv> attach_input u fallback_intent"
  defines "w1 \<equiv> snd (input_understanding ev u w)"
  shows "state (snd (run ev u w)) = state (snd (update_state ev a w1))"
    and "disk (snd (run ev u w)) = disk (snd (update_state ev a w1))"
    and "niches_of (state (snd (run ev u w)))
           = merge_niche (niches_of (state w)) (JStr (lit ''general''))"
    and "history_of (state (snd (run ev u w)))
           = last3 (history_of (state w) @ [turn_of (now ev (ticks w)) a])"
    and "update_state ev a w1
           = save_state ev (w1\<lparr>state := state (snd (run ev u w)), ticks := Suc (ticks w)\<rparr>)"
    and "fst (update_state ev a w1) = Inl x \<Longrightarrow> fst (run ev u w) = Inl x"
    and "disk w1 = disk w" and "writes w1 = writes w"
proof -
  have fb: "fst (input_understanding ev u w) = fallback_intent"
    using assms(2) by (rule input_understanding_fallback)
  have iu: "input_understanding ev u w = (fallback_intent, w1)"
    by (simp add: w1_def fb [symmetric])
  note w = input_understanding_world [OF iu]
  have obj0: "is_obj (fst (input_understanding ev u w))"
    by (simp add: fb fallback_intent_def)
  have obj: "is_obj a" by (simp add: a_def attach_fallback)
  have rdy: "ready (state w1)" using assms(1) by (simp add: w)
  have t: "topic_of a = JStr (lit ''general'')"
    by (simp add: a_def attach_fallback topic_of_def)
  note ra = run_after_update [OF obj0, unfolded fb, folded a_def, folded w1_def]
  note m = update_state_memory [OF rdy obj, where ev = ev]
  show st: "state (snd (run ev u w)) = state (snd (update_state ev a w1))"
    by (rule ra(1))
  show "disk (snd (run ev u w)) = disk (snd (update_state ev a w1))"
    by (rule ra(2))
  show "niches_of (state (snd (run ev u w)))
           = merge_niche (niches_of (state w)) (JStr (lit ''general''))"
    by (simp add: st m(1) t w)
  show "history_of (state (snd (run ev u w)))
           = last3 (history_of (state w) @ [turn_of (now ev (ticks w)) a])"
    by (simp add: st m(2) w)
  show "update_state ev a w1
           = save_state ev (w1\<lparr>state := state (snd (run ev u w)), ticks := Suc (ticks w)\<rparr>)"
    using m(5) by (simp add: st w)
  show "fst (update_state ev a w1) = Inl x \<Longrightarrow> fst (run ev u w) = Inl x"
    using ra(3) [where e = x] by simp
  show "disk w1 = disk w" "writes w1 = writes w" by (simp_all add: w)
qed

lemma turn_of_fallback:
  "turn_of ts (attach_input u fallback_intent)
     = JObj [(lit ''timestamp'', JStr ts),
             (lit ''analysis'',
                JObj [(lit ''topic'', JStr (lit ''general'')),
                      (lit ''tone'', JStr (lit ''neutral'')),
                      (lit ''constraints'', JStr []),
                      (lit ''user_input'', JStr u)]),
             (lit ''user_input'', JStr u)]"
  by (simp add: turn_of_def attach_fallback)

subsection \<open>A reply that does not parse, on a well-formed state\<close>

text \<open>
  On a well-formed state, and when the state file can be written, a request whose reply
  does not parse completes: the planning prompt carries the fallback intent, and what
  \<open>run\<close> returns is what the third call of the generation capability returned, for
  a rendering prompt that embeds what the second call returned.
\<close>

lemma unparseable_reply_completes:
  assumes "wf_state (state w)" and "intent_reply ev u w = Inl e"
    and "store ev (writes w) = Written"
  shows "\<exists>w' p plan.
            p = PlanPrompt (JStr (lit ''general'')) (JStr (lit ''neutral'')) (JStr [])
                  (intercalate (lit '', '') (map the_str (niches_of (state w'))))
                  (map turn_topic (history_of (state w'))) False
          \<and> plan = gen ev (Suc (length (sent w))) p
          \<and> run ev u w
               = (Inr (gen ev (Suc (Suc (length (sent w))))
                         (RenderPrompt plan (pref_tone (state w')))), w')
          \<and> sent w' = sent w @ [IntentPrompt u, p, RenderPrompt plan (pref_tone (state w'))]
          \<and> wf_state (state w')"
proof -
  have fb: "fst (input_understanding ev u w) = fallback_intent"
    using assms(2) by (rule input_understanding_fallback)
  then have "is_intent (fst (input_understanding ev u w))"
    by (simp add: fallback_is_intent)
  then obtain out w' where r: "run ev u w = (Inr out, w')" and wf': "wf_state (state w')"
    using run_wf [OF assms(1) _ assms(3)] by blast
  note rw = run_Inr_world [OF r, unfolded fb]
  have obj: "is_obj (attach_input u fallback_intent)"
    by (simp add: attach_fallback)
  obtain p plan where p: "plan_prompt (attach_input u fallback_intent) (state w') = Inr p"
    and plan: "plan = gen ev (Suc (length (sent w))) p"
    and out: "out = gen ev (Suc (Suc (length (sent w)))) (RenderPrompt plan (pref_tone (state w')))"
    and sent': "sent w' = sent w @ [IntentPrompt u, p, RenderPrompt plan (pref_tone (state w'))]"
    using rw(6) by blast
  have p': "p = PlanPrompt (JStr (lit ''general'')) (JStr (lit ''neutral'')) (JStr [])
                  (intercalate (lit '', '') (map the_str (niches_of (state w'))))
                  (map turn_topic (history_of (state w'))) False"
    using p plan_prompt_wf_state [OF wf' obj]
    by (simp add: attach_fallback get_or_def)
  show ?thesis
    using p' plan r [unfolded out] sent' wf' by blast
qed

subsection \<open>The limits of the interpreter\<close>

text \<open>
  A text of more opening brackets than there are levels of recursion left raises
  \<open>RecursionError\<close>, and an integer of more digits than the limit raises
  \<open>ValueError\<close>. In a reply to the intent prompt these are caught, and the intent is
  the fallback (\<open>input_understanding_fallback\<close>); in the state file they are not
  caught, and the constructor raises them.
\<close>

lemma scan_once_too_deep: "d < n \<Longrightarrow> scan_once md d (replicate n 91) = Inl RecursionError"
proof (induction d arbitrary: n)
  case 0
  then obtain m where "n = Suc m" by (cases n) auto
  then show ?case by (simp add: scan_once.simps)
next
  case (Suc d)
  then obtain m where n: "n = Suc (Suc m)" by (cases n; cases "n - 1") auto
  have "scan_once md d (replicate (Suc m) 91) = Inl RecursionError"
    using Suc.IH [of "Suc m"] Suc.prems n by simp
  then have "scan_array md d [] (91 # replicate m 91) = Inl RecursionError"
    by (simp add: scan_array.simps [of md d "[]" "91 # replicate m 91"])
  then show ?case
    by (simp add: n scan_once.simps [of md "Suc d"] skip_ws_def is_ws_def)
qed

lemma json_loads_too_deep: "d < n \<Longrightarrow> json_loads md d (replicate n 91) = Inl RecursionError"
proof -
  assume d: "d < n"
  then obtain m where n: "n = Suc m" by (cases n) auto
  have "skip_ws (replicate n 91) = replicate n 91"
    by (simp add: n skip_ws_def is_ws_def)
  then show ?thesis
    using scan_once_too_deep [OF d, of md] by (simp add: json_loads_def) (simp add: n)
qed

lemma match_number_too_long:
  assumes "0 < md" and "md < n"
  shows "match_number md (replicate n 57) = Some (Inl ValueError)"
proof -
  obtain m where n: "n = Suc m" using assms(2) by (cases n) auto
  have d: "is_digit 57" by (simp add: is_digit_def)
  have tw: "takeWhile is_digit (replicate m 57) = replicate m 57"
    using d by (simp add: takeWhile_eq_all_conv)
  have dw: "dropWhile is_digit (replicate m 57) = []"
    using d by simp
  show ?thesis
    using assms
    by (simp add: match_number_def n d tw dw match_frac_def match_exp_def Let_def)
qed

lemma json_loads_too_long:
  assumes "0 < md" and "md < n"
  shows "json_loads md d (replicate n 57) = Inl ValueError"
proof -
  obtain m where n: "n = Suc m" using assms(2) by (cases n) auto
  have sk: "skip_ws (replicate n 57) = replicate n 57"
    by (simp add: n skip_ws_def is_ws_def)
  have "scan_once md d (57 # replicate m 57) = Inl ValueError"
    using match_number_too_long [OF assms] 
    by (simp add: scan_once.simps [of md d] n lit_Cons lit_Nil)
  then show ?thesis
    by (simp add: json_loads_def sk) (simp add: n)
qed

lemma agent_init_raises:
  assumes "json_loads (max_digits ev) (file_depth ev) t = Inl e" and "e \<noteq> JSONDecodeError"
  shows "agent_init ev (Text t) = Inl e"
  using assms by (simp add: agent_init_def load_state_def)

lemma agent_init_too_deep: "agent_init prose_env (Text (replicate 1000 91)) = Inl RecursionError"
proof (rule agent_init_raises)
  show "json_loads (max_digits prose_env) (file_depth prose_env) (replicate 1000 91)
          = Inl RecursionError"
    by (rule json_loads_too_deep) (simp add: prose_env_def quiet_env_def)
qed simp

lemma agent_init_too_long: "agent_init prose_env (Text (replicate 4301 57)) = Inl ValueError"
proof (rule agent_init_raises)
  show "json_loads (max_digits prose_env) (file_depth prose_env) (replicate 4301 57)
          = Inl ValueError"
    by (rule json_loads_too_long) (simp_all add: prose_env_def quiet_env_def)
qed simp

lemma agent_init_undecodable: "agent_init ev Undecodable = Inl UnicodeDecodeError"
  by (simp add: agent_init_def load_state_def)

text \<open>A restart reads back the state that the last write left, within the limits.\<close>

lemma agent_init_restart:
  assumes "dump_error (max_digits ev) (file_depth ev) st = None" and "py_truthy st"
  shows "agent_init ev (Dumped st)
           = Inr \<lparr>state = st, disk = Dumped st, sent = [], ticks = 0, writes = 0, console = []\<rparr>"
  using assms by (simp add: agent_init_def load_state_def)

subsection \<open>A reply that holds markup\<close>

text \<open>
  The model answers with a text that holds a closing tag. The request completes; \<open>rich\<close>
  raises \<open>MarkupError\<close> on the reply, the handler of the loop prints the message, which
  holds the tag, \<open>rich\<close> raises again, and the exception leaves the loop.
\<close>

lemma tag_reply_not_json:
  "json_loads md d (py_strip (gen tag_env k p)) = Inl JSONDecodeError"
  by (simp add: tag_env_def quiet_env_def py_strip_def py_isspace_def decode_simps)

lemma tag_reply_ends_loop: "fst (cli_step tag_env request fresh) = Inl MarkupError"
proof -
  have fb: "fst (input_understanding tag_env request fresh) = fallback_intent"
    by (simp add: input_understanding_fallback tag_reply_not_json)
  then have "is_intent (fst (input_understanding tag_env request fresh))"
    by (simp add: fallback_is_intent)
  then obtain out w' where r: "run tag_env request fresh = (Inr out, w')"
    using run_wf [of fresh tag_env request]
    by (auto simp: fresh_def default_state_def wf_state_def)
  have g: "\<And>k p. gen tag_env k p = lit ''Try [/this] idea''"
    by (simp add: tag_env_def quiet_env_def)
  have out: "out = lit ''Try [/this] idea''"
    using run_Inr_world(6) [OF r] by (auto simp: g)
  have c: "py_lower request \<noteq> lit ''exit''" "py_lower request \<noteq> lit ''quit''"
          "py_strip request \<noteq> []"
    by (simp_all add: request_def py_lower_def py_strip_def py_isspace_def lit_Cons lit_Nil)
  have m: "rich tag_env (reply_text out)
             = Some (lit ''closing tag '' @ [39] @ lit ''[/this]'' @ [39]
                     @ lit '' does not match any open tag'')"
    by (simp add: tag_env_def quiet_env_def rich_print_def reply_text_def out lit_Cons lit_Nil)
  have m': "rich tag_env (lit ''Error: '' @ lit ''closing tag '' @ [39] @ lit ''[/this]'' @ [39]
                     @ lit '' does not match any open tag'') \<noteq> None"
    by (simp add: tag_env_def quiet_env_def rich_print_def lit_Cons lit_Nil)
  show ?thesis
    using c m' by (auto simp: cli_step_def r m split: option.splits)
qed

section \<open>The claims\<close>

text \<open>
  C1. After a sequence of completed requests from a freshly initialised state, the
  history holds the turns of the last three requests (all of them if there were fewer),
  in the order of the requests: its length is the minimum of their number and three,
  its raw inputs are the last three inputs in order, and its timestamps are the last
  three readings of the clock in order. A request past the third drops the oldest turn.
\<close>

theorem history_last_three:
  assumes "run_all ev inputs fresh = (rs, w)" and "list_all (\<lambda>r. \<not> isl r) rs"
  shows "length (history_of (state w)) = min (length inputs) 3
     \<and> map (\<lambda>h. lookup h (lit ''user_input'')) (history_of (state w))
         = map (\<lambda>u. Some (JStr u)) (last3 inputs)
     \<and> map (\<lambda>h. lookup h (lit ''timestamp'')) (history_of (state w))
         = map (\<lambda>k. Some (JStr (now ev k))) (last3 [0 ..< length inputs])"
proof -
  have "history_of (state fresh) = last3 []" by (simp add: history_of_fresh)
  from run_all_history [OF assms this] obtain ts where ts:
    "length ts = length inputs" "history_of (state w) = last3 ts"
    "map (\<lambda>h. lookup h (lit ''user_input'')) ts = map (\<lambda>u. Some (JStr u)) inputs"
    "map (\<lambda>h. lookup h (lit ''timestamp'')) ts
       = map (\<lambda>k. Some (JStr (now ev k))) [ticks fresh ..< ticks fresh + length inputs]"
    by auto
  have "ticks fresh = 0" by (simp add: fresh_def)
  then show ?thesis
    using ts by (simp add: length_last3 map_last3)
qed

theorem history_last_three_witness:
  "list_all (\<lambda>r. \<not> isl r)
     (fst (run_all prose_env [lit ''one'', lit ''two'', lit ''three'', lit ''four''] fresh))
   \<and> length (history_of (state (snd
        (run_all prose_env [lit ''one'', lit ''two'', lit ''three'', lit ''four''] fresh)))) = 3
   \<and> map (\<lambda>h. lookup h (lit ''user_input''))
        (history_of (state (snd
          (run_all prose_env [lit ''one'', lit ''two'', lit ''three'', lit ''four''] fresh))))
       = [Some (JStr (lit ''two'')), Some (JStr (lit ''three'')), Some (JStr (lit ''four''))]"
proof -
  have h: "list_all (\<lambda>r. \<not> isl r)
     (fst (run_all prose_env [lit ''one'', lit ''two'', lit ''three'', lit ''four''] fresh))"
  proof (rule run_all_completes [OF wf_state_fresh])
    show "\<forall>k p. json_loads (max_digits prose_env) (reply_depth prose_env)
                  (py_strip (gen prose_env k p)) = Inl JSONDecodeError"
      by (simp add: prose_reply_not_json)
    show "\<forall>k. store prose_env k = Written" by simp
  qed
  have e: "run_all prose_env [lit ''one'', lit ''two'', lit ''three'', lit ''four''] fresh
             = (fst (run_all prose_env [lit ''one'', lit ''two'', lit ''three'', lit ''four''] fresh),
                snd (run_all prose_env [lit ''one'', lit ''two'', lit ''three'', lit ''four''] fresh))"
    by simp
  show ?thesis
    using h history_last_three [OF e h] by (simp add: last3_def)
qed

text \<open>
  C2. For every sequence of intents folded into the state of a fresh agent, with topics
  repeated, empty or missing, the niches are the non-empty topics in the order of their
  first occurrence, each once: no string occurs twice (strings are compared exactly, so
  \<open>cats\<close> and \<open>Cats\<close> are two niches), and the empty string is never a niche.
\<close>

theorem niches_distinct_nonempty:
  assumes "list_all is_intent intents"
  shows "niches_of (state (update_all ev intents fresh))
           = map JStr (first_occurrences []
               (filter (\<lambda>t. t \<noteq> []) (map (\<lambda>a. the_str (topic_of a)) intents)))
       \<and> distinct (niches_of (state (update_all ev intents fresh)))
       \<and> JStr [] \<notin> set (niches_of (state (update_all ev intents fresh)))"
proof -
  have objs: "list_all is_obj intents"
    using assms by (simp add: list_all_iff is_intent_def)
  have "niches_of (state (update_all ev intents fresh))
          = foldl merge_niche (map JStr []) (map topic_of intents)"
    using update_all_niches [OF wf_state_ready [OF wf_state_fresh] objs, where ev = ev]
    by (simp add: niches_of_fresh)
  then have eq: "niches_of (state (update_all ev intents fresh))
           = map JStr (first_occurrences []
               (filter (\<lambda>t. t \<noteq> []) (map (\<lambda>a. the_str (topic_of a)) intents)))"
    by (simp only: foldl_merge_strings [OF assms])
  moreover have "distinct (first_occurrences []
               (filter (\<lambda>t. t \<noteq> []) (map (\<lambda>a. the_str (topic_of a)) intents)))"
    by (rule distinct_first_occurrences) simp
  moreover have "[] \<notin> set (first_occurrences []
               (filter (\<lambda>t. t \<noteq> []) (map (\<lambda>a. the_str (topic_of a)) intents)))"
    by (simp add: set_first_occurrences)
  ultimately show ?thesis
    by (auto simp: distinct_map inj_on_def)
qed

theorem niches_distinct_nonempty_witness:
  "list_all is_intent sample_intents
   \<and> niches_of (state (update_all prose_env sample_intents fresh))
       = [JStr (lit ''cats''), JStr (lit ''dogs''), JStr (lit ''Cats'')]"
proof -
  have h: "list_all is_intent sample_intents"
    by (simp add: sample_intents_def is_intent_def)
  show ?thesis
    using h niches_distinct_nonempty [OF h, of prose_env]
    by (simp add: sample_intents_def topic_of_def the_str_def)
qed

text \<open>
  C3, on the code. A reply to the intent prompt that is not parseable JSON is replaced by
  the fallback intent (general, neutral, no constraints), but \<open>run\<close> does not
  complete when a niche of the state is not a string, as the niche that an earlier reply
  with a number as topic has left (\<open>number_topic_breaks_later_requests\<close>): the
  fallback is merged into the state, \<open>plan_task\<close> raises where it joins the niches,
  and \<open>run\<close> raises without a planning or a rendering call. On a well-formed state
  with a writable file the request completes (\<open>unparseable_reply_completes\<close>).
\<close>

theorem unparseable_reply_raises_after_bad_topic:
  assumes "ready (state w)" and "\<not> list_all is_str (niches_of (state w))"
    and "intent_reply ev u w = Inl e"
  shows "fst (input_understanding ev u w) = fallback_intent
       \<and> (\<exists>e' w'. run ev u w = (Inl e', w')
             \<and> sent w' = sent w @ [IntentPrompt u]
             \<and> JStr (lit ''general'') \<in> set (niches_of (state w'))
             \<and> \<not> list_all is_str (niches_of (state w')))"
proof -
  have fb: "fst (input_understanding ev u w) = fallback_intent"
    using assms(3) by (rule input_understanding_fallback)
  obtain e' w' where r: "run ev u w = (Inl e', w')"
    and s: "sent w' = sent w @ [IntentPrompt u]"
    using run_bad_niche [OF assms(1,2)] by blast
  have n: "niches_of (state w') = merge_niche (niches_of (state w)) (JStr (lit ''general''))"
    using fallback_run(3) [OF assms(1,3)] by (simp add: r)
  have g: "JStr (lit ''general'') \<in> set (niches_of (state w'))"
    unfolding n by (rule merge_niche_member_str) simp_all
  have "\<not> list_all is_str (niches_of (state w'))"
    using assms(2) merge_niche_keeps [of "niches_of (state w)" "JStr (lit ''general'')"]
    by (auto simp: n list_all_iff)
  then show ?thesis using fb r s g by blast
qed

theorem unparseable_reply_raises_after_bad_topic_witness:
  "ready (state (snd (run five_env request fresh)))
   \<and> \<not> list_all is_str (niches_of (state (snd (run five_env request fresh))))
   \<and> intent_reply prose_env request (snd (run five_env request fresh)) = Inl JSONDecodeError
   \<and> fst (input_understanding prose_env request (snd (run five_env request fresh)))
       = fallback_intent
   \<and> isl (fst (run prose_env request (snd (run five_env request fresh))))"
proof -
  have h1: "ready (state (snd (run five_env request fresh)))"
    using run_ready [OF ready_fresh] .
  have "JInt 5 \<in> set (niches_of (state (snd (run five_env request fresh))))"
    using number_topic_breaks_later_requests by blast
  moreover have "\<not> is_str (JInt 5)" by simp
  ultimately have h2: "\<not> list_all is_str (niches_of (state (snd (run five_env request fresh))))"
    unfolding list_all_iff by blast
  have h3: "intent_reply prose_env request (snd (run five_env request fresh))
              = Inl JSONDecodeError"
    by (rule prose_reply_not_json)
  show ?thesis
    using h1 h2 h3 unparseable_reply_raises_after_bad_topic [OF h1 h2 h3] by auto
qed

text \<open>
  C4, on the code. A reply to the intent prompt that is JSON but not an object (a number,
  a string, a list, \<open>null\<close>) parses, so \<open>input_understanding\<close> returns it as the
  analysis, and \<open>run\<close> raises \<open>TypeError\<close> where it attaches the raw input to it:
  nothing is returned, and the state is not updated.
\<close>

theorem run_raises_on_non_object:
  assumes "intent_reply ev u w = Inr v"
    and "\<not> is_obj v"
  shows "run ev u w = (Inl TypeError, w\<lparr>sent := sent w @ [IntentPrompt u]\<rparr>)"
proof -
  have "input_understanding ev u w = (v, w\<lparr>sent := sent w @ [IntentPrompt u]\<rparr>)"
    using assms(1) by (simp add: input_understanding_eq)
  moreover have "py_setitem v (lit ''user_input'') (JStr u) = Inl TypeError"
    using assms(2) by (cases v) auto
  ultimately show ?thesis by (simp add: run_def)
qed

theorem run_raises_on_non_object_witness:
  "intent_reply number_env request fresh = Inr (JInt 42)
   \<and> \<not> is_obj (JInt 42)
   \<and> run number_env request fresh
       = (Inl TypeError, fresh\<lparr>sent := sent fresh @ [IntentPrompt request]\<rparr>)"
proof -
  have h: "intent_reply number_env request fresh = Inr (JInt 42)"
    by (simp add: number_env_def quiet_env_def py_strip_def py_isspace_def decode_simps)
  have n: "\<not> is_obj (JInt 42)" by simp
  show ?thesis
    using h n run_raises_on_non_object [OF h n] by simp
qed

text \<open>
  C5, on the code. When every call of the generation capability returns an error
  sentinel (a string that starts with \<open>API Error: \<close>), the intent is the fallback, but
  the sentinel of the rendering call is not what \<open>run\<close> returns when a niche of the
  state is not a string: \<open>run\<close> raises, and the intent prompt is the only prompt
  sent, so that there is no planning call and no rendering call. On a well-formed state
  with a writable file \<open>run\<close> returns the sentinel of the rendering call
  (\<open>sentinel_not_json\<close>, \<open>unparseable_reply_completes\<close>).
\<close>

theorem sentinel_not_returned_after_bad_topic:
  assumes "ready (state w)" and "\<not> list_all is_str (niches_of (state w))"
    and "\<forall>k p. is_prefix (lit ''API Error: '') (gen ev k p)"
  shows "fst (input_understanding ev u w) = fallback_intent
       \<and> (\<exists>e' w'. run ev u w = (Inl e', w') \<and> sent w' = sent w @ [IntentPrompt u])
       \<and> (\<forall>k p. fst (run ev u w) \<noteq> Inr (gen ev k p))"
proof -
  have "intent_reply ev u w = Inl JSONDecodeError"
    using assms(3) by (simp add: sentinel_not_json)
  then have fb: "fst (input_understanding ev u w) = fallback_intent"
    by (rule input_understanding_fallback)
  obtain e' w' where r: "run ev u w = (Inl e', w')"
    and s: "sent w' = sent w @ [IntentPrompt u]"
    using run_bad_niche [OF assms(1,2)] by blast
  show ?thesis using fb r s by auto
qed

theorem sentinel_not_returned_after_bad_topic_witness:
  "ready (state (snd (run five_env request fresh)))
   \<and> \<not> list_all is_str (niches_of (state (snd (run five_env request fresh))))
   \<and> (\<forall>k p. is_prefix (lit ''API Error: '') (gen failing_env k p))
   \<and> fst (input_understanding failing_env request (snd (run five_env request fresh)))
       = fallback_intent
   \<and> isl (fst (run failing_env request (snd (run five_env request fresh))))"
proof -
  have h1: "ready (state (snd (run five_env request fresh)))"
    using run_ready [OF ready_fresh] .
  have "JInt 5 \<in> set (niches_of (state (snd (run five_env request fresh))))"
    using number_topic_breaks_later_requests by blast
  moreover have "\<not> is_str (JInt 5)" by simp
  ultimately have h2: "\<not> list_all is_str (niches_of (state (snd (run five_env request fresh))))"
    unfolding list_all_iff by blast
  have h3: "\<forall>k p. is_prefix (lit ''API Error: '') (gen failing_env k p)"
    by (simp add: failing_env_def quiet_env_def lit_Cons lit_Nil)
  show ?thesis
    using h1 h2 h3 sentinel_not_returned_after_bad_topic [OF h1 h2 h3, of request] by auto
qed



text \<open>
  C7, on the code. The analysis embedded in the turn is not the three-field intent: for
  a reply that does not parse the intent is the fallback, and the turn holds a dict of
  four fields, the fallback with the raw input under \<open>user_input\<close>.
\<close>

theorem turn_analysis_has_four_fields:
  "fst (input_understanding prose_env request fresh) = fallback_intent
   \<and> \<not> isl (fst (run prose_env request fresh))
   \<and> lookup (last (history_of (state (snd (run prose_env request fresh))))) (lit ''analysis'')
       = Some (JObj [(lit ''topic'', JStr (lit ''general'')),
                     (lit ''tone'', JStr (lit ''neutral'')),
                     (lit ''constraints'', JStr []),
                     (lit ''user_input'', JStr request)])
   \<and> lookup (last (history_of (state (snd (run prose_env request fresh))))) (lit ''analysis'')
       \<noteq> Some fallback_intent"
proof -
  have fb: "fst (input_understanding prose_env request fresh) = fallback_intent"
    by (simp add: input_understanding_fallback prose_reply_not_json)
  then have "is_intent (fst (input_understanding prose_env request fresh))"
    by (simp add: fallback_is_intent)
  then obtain out w' where r: "run prose_env request fresh = (Inr out, w')"
    using run_wf [OF wf_state_fresh, of prose_env request] by auto
  have "last (history_of (state w'))
          = turn_of (now prose_env (ticks fresh)) (attach_input request fallback_intent)"
    using run_Inr_world(2) [OF r] by (simp add: fb last_last3_snoc)
  then have "lookup (last (history_of (state w'))) (lit ''analysis'')
               = Some (attach_input request fallback_intent)"
    by (simp add: turn_of_def)
  then show ?thesis
    using fb by (simp add: r attach_fallback) (simp add: fallback_intent_def)
qed

text \<open>
  C7, amended. Every turn appended by a completed request has the fields timestamp (the
  reading of the clock), analysis and user_input (the raw input); the analysis is the
  intent produced for the request with the raw input attached under \<open>user_input\<close>, its
  other fields as produced.
\<close>

theorem turn_records_intent_with_input:
  assumes "run ev u w = (Inr out, w')"
  shows "is_obj (fst (input_understanding ev u w))
       \<and> history_of (state w') \<noteq> []
       \<and> last (history_of (state w'))
           = JObj [(lit ''timestamp'', JStr (now ev (ticks w))),
                   (lit ''analysis'', attach_input u (fst (input_understanding ev u w))),
                   (lit ''user_input'', JStr u)]
       \<and> lookup (attach_input u (fst (input_understanding ev u w))) (lit ''user_input'')
           = Some (JStr u)
       \<and> (\<forall>k. k \<noteq> lit ''user_input'' \<longrightarrow>
             lookup (attach_input u (fst (input_understanding ev u w))) k
               = lookup (fst (input_understanding ev u w)) k)"
proof -
  note rw = run_Inr_world [OF assms]
  have "last (history_of (state w'))
          = turn_of (now ev (ticks w)) (attach_input u (fst (input_understanding ev u w)))"
    using rw(2) by (simp add: last_last3_snoc)
  then show ?thesis
    using rw(1) rw(2)
    by (simp add: last3_snoc_not_Nil turn_of_attach_input lookup_attach_input)
qed

theorem turn_records_intent_with_input_witness:
  "\<not> isl (fst (run fashion_env request fresh))
   \<and> last (history_of (state (snd (run fashion_env request fresh))))
       = JObj [(lit ''timestamp'', JStr (lit ''2024-05-01T10:00:00'')),
               (lit ''analysis'',
                  JObj [(lit ''topic'', JStr (lit ''sustainable fashion'')),
                        (lit ''tone'', JStr (lit ''fun'')),
                        (lit ''constraints'', JStr (lit ''for beginners'')),
                        (lit ''user_input'', JStr request)]),
               (lit ''user_input'', JStr request)]"
proof -
  obtain out w' where r: "run fashion_env request fresh = (Inr out, w')"
    using fashion_run_completes [OF wf_state_fresh] by blast
  have n: "now fashion_env (ticks fresh) = lit ''2024-05-01T10:00:00''"
    by (simp add: fashion_env_def quiet_env_def)
  show ?thesis
    using turn_records_intent_with_input [OF r]
    by (simp add: r fashion_understood attach_input_def fashion_intent_def n)
qed

text \<open>
  C8. An empty or whitespace-only line is rejected before the pipeline starts: the loop
  prints the request to enter a valid input and goes on; no prompt is sent, and the
  state, the state file and the clock are as they were.
\<close>

theorem blank_input_rejected:
  "list_all py_isspace user_input \<Longrightarrow>
   cli_step ev user_input w = (Inr True, w\<lparr>console := console w @ [InvalidRequest]\<rparr>)"
  by (simp add: cli_step_def all_space_strip all_space_not_command)

theorem blank_input_rejected_witness:
  "list_all py_isspace [32, 9, 160, 8195]
   \<and> cli_step prose_env [32, 9, 160, 8195] fresh
       = (Inr True, fresh\<lparr>console := console fresh @ [InvalidRequest]\<rparr>)"
proof -
  have h: "list_all py_isspace [32, 9, 160, 8195]"
    by (simp add: py_isspace_def)
  show ?thesis
    using h blank_input_rejected [OF h, of prose_env fresh] by simp
qed

text \<open>
  C9, as the code has it. A state file that exists but cannot be read makes the
  constructor raise: \<open>load_state\<close> catches \<open>FileNotFoundError\<close> and
  \<open>JSONDecodeError\<close> only.
\<close>

theorem agent_init_unreadable: "agent_init prose_env Unreadable = Inl PermissionError"
  by (simp add: agent_init_def load_state_def)

text \<open>
  C9, amended. When the state file is missing, or holds a text on which the decoder
  raises \<open>JSONDecodeError\<close>, the state is reinitialised to the default document (empty
  history, empty niches, the preferences friendly and medium) and the constructor
  writes that document. If the write succeeds the constructor returns, with the file
  holding the default document; if it fails the constructor raises the exception of
  the write. A file that cannot be read or decoded, and a text on which the decoder
  raises another exception (\<open>agent_init_raises\<close>), are not recovered.
\<close>

theorem agent_init_recovers:
  "d = Absent
     \<or> (\<exists>t. d = Text t \<and> json_loads (max_digits ev) (file_depth ev) t = Inl JSONDecodeError) \<Longrightarrow>
   agent_init ev d =
     (case store ev 0 of
        Written \<Rightarrow> Inr \<lparr>state = default_state, disk = Dumped default_state,
                         sent = [], ticks = 0, writes = 1, console = []\<rparr>
      | Refused e \<Rightarrow> Inl e
      | Broken e t \<Rightarrow> Inl e)
   \<and> history_of default_state = [] \<and> niches_of default_state = []
   \<and> lookup default_state (lit ''user_preferences'')
       = Some (JObj [(lit ''tone'', JStr (lit ''friendly'')),
                     (lit ''complexity'', JStr (lit ''medium''))])"
  by (auto simp: agent_init_def load_state_def save_state_def default_state_def
                 history_of_def niches_of_def split: write_outcome.splits)

theorem agent_init_recovers_witness:
  \<open>(Text (lit ''{"history": ['') = Absent
      \<or> (\<exists>t. Text (lit ''{"history": ['') = Text t
             \<and> json_loads (max_digits prose_env) (file_depth prose_env) t = Inl JSONDecodeError))
   \<and> agent_init prose_env (Text (lit ''{"history": [''))
       = Inr \<lparr>state = default_state, disk = Dumped default_state,
              sent = [], ticks = 0, writes = 1, console = []\<rparr>
   \<and> agent_init readonly_env Absent = Inr fresh
   \<and> agent_init (prose_env\<lparr>store := (\<lambda>k. Refused PermissionError)\<rparr>) Absent
       = Inl PermissionError\<close>
proof -
  have h: \<open>json_loads (max_digits prose_env) (file_depth prose_env) (lit ''{"history": ['')
             = Inl JSONDecodeError\<close>
    by (simp add: prose_env_def quiet_env_def decode_simps)
  then have h': \<open>Text (lit ''{"history": ['') = Absent
      \<or> (\<exists>t. Text (lit ''{"history": ['') = Text t
             \<and> json_loads (max_digits prose_env) (file_depth prose_env) t = Inl JSONDecodeError)\<close>
    by simp
  have a: "Absent = Absent \<or> (\<exists>t. Absent = Text t
             \<and> json_loads (max_digits ev) (file_depth ev) t = Inl JSONDecodeError)" for ev
    by simp
  show ?thesis
    using h' agent_init_recovers [OF h'] agent_init_recovers [OF a, of readonly_env]
          agent_init_recovers [OF a, of "prose_env\<lparr>store := (\<lambda>k. Refused PermissionError)\<rparr>"]
    by (simp add: readonly_env_def fresh_def)
qed

text \<open>
  C10, as the code has it. The model answers in prose and the state file cannot be
  opened for writing: the fallback is merged into the niches of \<open>self.state\<close>, but it
  is not persisted; \<open>run\<close> raises the exception of the write, and the file holds the
  document it held before.
\<close>

theorem fallback_not_persisted:
  "intent_reply readonly_env request fresh = Inl JSONDecodeError
   \<and> fst (run readonly_env request fresh) = Inl PermissionError
   \<and> JStr (lit ''general'') \<in> set (niches_of (state (snd (run readonly_env request fresh))))
   \<and> disk (snd (run readonly_env request fresh)) = Dumped default_state
   \<and> disk (snd (run readonly_env request fresh))
       \<noteq> Dumped (state (snd (run readonly_env request fresh)))"
proof -
  have g: "gen readonly_env = gen prose_env" "max_digits readonly_env = max_digits prose_env"
          "reply_depth readonly_env = reply_depth prose_env"
    by (simp_all add: readonly_env_def)
  have h: "intent_reply readonly_env request fresh = Inl JSONDecodeError"
    unfolding g by (rule prose_reply_not_json)
  note f = fallback_run [OF ready_fresh h]
  have wr: "store readonly_env (writes fresh) = Refused PermissionError"
    by (simp add: readonly_env_def fresh_def)
  have up: "update_state readonly_env (attach_input request fallback_intent)
              (snd (input_understanding readonly_env request fresh))
            = (Inl PermissionError,
               (snd (input_understanding readonly_env request fresh))
                 \<lparr>state := state (snd (run readonly_env request fresh)),
                  ticks := Suc (ticks fresh), writes := Suc (writes fresh)\<rparr>)"
    unfolding f(5) by (simp add: save_state_def f(8) wr)
  have r: "fst (run readonly_env request fresh) = Inl PermissionError"
    using f(6) [of PermissionError] by (simp add: up)
  have n: "niches_of (state (snd (run readonly_env request fresh))) = [JStr (lit ''general'')]"
    by (simp add: f(3) niches_of_fresh merge_niche_def)
  have d: "disk (snd (run readonly_env request fresh)) = Dumped default_state"
    unfolding f(2) by (simp add: up f(7)) (simp add: fresh_def)
  have "niches_of default_state = []"
    by (simp add: default_state_def niches_of_def)
  then have "state (snd (run readonly_env request fresh)) \<noteq> default_state"
    using n by auto
  then show ?thesis using h r n d by simp
qed

text \<open>
  C10, amended. When the reply to the intent prompt does not parse, on a state whose
  niches and history are lists (as every state is that the agent makes from a first
  start, \<open>ready_fresh\<close> and \<open>run_ready\<close>), the fallback is folded into
  \<open>self.state\<close> like any intent, whether \<open>run\<close> completes or not: after the run
  \<open>general\<close> is among the niches, and the last turn of the history holds the fallback
  with the raw input, so that its topic is \<open>general\<close>. The state is persisted when the
  write of the state file succeeds; when the write fails, \<open>run\<close> raises its exception
  and the file holds what the failed write left.
\<close>

theorem fallback_is_recorded:
  assumes "ready (state w)" and "intent_reply ev u w = Inl e"
  shows "JStr (lit ''general'') \<in> set (niches_of (state (snd (run ev u w))))
       \<and> history_of (state (snd (run ev u w))) \<noteq> []
       \<and> last (history_of (state (snd (run ev u w))))
           = JObj [(lit ''timestamp'', JStr (now ev (ticks w))),
                   (lit ''analysis'',
                      JObj [(lit ''topic'', JStr (lit ''general'')),
                            (lit ''tone'', JStr (lit ''neutral'')),
                            (lit ''constraints'', JStr []),
                            (lit ''user_input'', JStr u)]),
                   (lit ''user_input'', JStr u)]
       \<and> turn_topic (last (history_of (state (snd (run ev u w))))) = JStr (lit ''general'')
       \<and> (case store ev (writes w) of
            Written \<Rightarrow> disk (snd (run ev u w)) = Dumped (state (snd (run ev u w)))
          | Refused x \<Rightarrow> fst (run ev u w) = Inl x \<and> disk (snd (run ev u w)) = disk w
          | Broken x t \<Rightarrow> fst (run ev u w) = Inl x \<and> disk (snd (run ev u w)) = Text t)"
proof -
  note f = fallback_run [OF assms]
  have n: "JStr (lit ''general'') \<in> set (niches_of (state (snd (run ev u w))))"
    unfolding f(3) by (rule merge_niche_member_str) simp_all
  have h: "history_of (state (snd (run ev u w))) \<noteq> []"
    unfolding f(4) by (rule last3_snoc_not_Nil)
  have l: "last (history_of (state (snd (run ev u w))))
             = turn_of (now ev (ticks w)) (attach_input u fallback_intent)"
    unfolding f(4) by (rule last_last3_snoc)
  have t: "turn_topic (last (history_of (state (snd (run ev u w))))) = JStr (lit ''general'')"
    unfolding l by (simp add: turn_topic_turn_of attach_fallback topic_of_def)
  have d: "case store ev (writes w) of
            Written \<Rightarrow> disk (snd (run ev u w)) = Dumped (state (snd (run ev u w)))
          | Refused x \<Rightarrow> fst (run ev u w) = Inl x \<and> disk (snd (run ev u w)) = disk w
          | Broken x t \<Rightarrow> fst (run ev u w) = Inl x \<and> disk (snd (run ev u w)) = Text t"
  proof (cases "store ev (writes w)")
    case Written
    then show ?thesis
      unfolding f(2) f(5) by (simp add: save_state_def f(8))
  next
    case (Refused x)
    then have "update_state ev (attach_input u fallback_intent) (snd (input_understanding ev u w))
                 = (Inl x, (snd (input_understanding ev u w))
                      \<lparr>state := state (snd (run ev u w)), ticks := Suc (ticks w),
                       writes := Suc (writes w)\<rparr>)"
      unfolding f(5) by (simp add: save_state_def f(8))
    then show ?thesis
      using f(6) [of x] Refused unfolding f(2) by (simp add: f(7))
  next
    case (Broken x t)
    then have "update_state ev (attach_input u fallback_intent) (snd (input_understanding ev u w))
                 = (Inl x, (snd (input_understanding ev u w))
                      \<lparr>state := state (snd (run ev u w)), ticks := Suc (ticks w),
                       disk := Text t, writes := Suc (writes w)\<rparr>)"
      unfolding f(5) by (simp add: save_state_def f(8))
    then show ?thesis
      using f(6) [of x] Broken unfolding f(2) by simp
  qed
  show ?thesis
    using n h l t d by (simp add: turn_of_fallback)
qed

theorem fallback_is_recorded_witness:
  "ready (state fresh)
   \<and> intent_reply failing_env request fresh = Inl JSONDecodeError
   \<and> JStr (lit ''general'') \<in> set (niches_of (state (snd (run failing_env request fresh))))
   \<and> turn_topic (last (history_of (state (snd (run failing_env request fresh)))))
       = JStr (lit ''general'')
   \<and> disk (snd (run failing_env request fresh))
       = Dumped (state (snd (run failing_env request fresh)))"
proof -
  have "is_prefix (lit ''API Error: '') (gen failing_env (length (sent fresh)) (IntentPrompt request))"
    by (simp add: failing_env_def quiet_env_def lit_Cons lit_Nil)
  then have h: "intent_reply failing_env request fresh = Inl JSONDecodeError"
    by (rule sentinel_not_json)
  show ?thesis
    using ready_fresh h fallback_is_recorded [OF ready_fresh h]
    by (simp add: turn_topic_def topic_of_def)
qed

end
